theory Spec2Isabelle
  imports Main "HOL-Library.Word" "HOL-Library.Monad_Syntax"
begin

section \<open>The CPU backend (cpu.c): data model\<close>

text \<open>
  Conventions of the embedding.
  \<^item> A C pointer that may be null is an \<open>option\<close> (\<open>None\<close> is NULL).
  \<^item> A function whose C execution can be undefined (a null dereference, a write or read
    past an array) returns an \<open>option\<close> whose \<open>None\<close> stands for that undefined
    behaviour; an error the code reports (a NULL or negative return) is part of the value.
  \<^item> A pointer into an array or into a string is the list of the elements from the
    pointed position on.
\<close>

subsection \<open>Values of the polyhedral library\<close>

text \<open>An \<open>isl_id\<close>: ids are interned, so the pointer comparison of the code is
  equality of the identified names.\<close>
type_synonym isl_id = string

text \<open>A statement instance \<open>S[i, j]\<close>: the statement's id and its iteration vector.\<close>
type_synonym stmt_instance = "isl_id \<times> int list"

text \<open>An access relation (an \<open>isl_map\<close> from statement instances to array elements),
  with the two attributes the code reads off it.\<close>
record isl_map =
  tuple_name :: "string option"   \<comment> \<open>\<open>isl_map_get_tuple_name(m, isl_dim_out)\<close>\<close>
  dim_out :: nat                  \<comment> \<open>\<open>isl_map_dim(m, isl_dim_out)\<close>\<close>
  pairs :: "(stmt_instance \<times> int list) set"

text \<open>An \<open>isl_ast_expr\<close> is kept as the C text it prints as.\<close>
type_synonym isl_ast_expr = string

text \<open>The build handed to the hooks: the schedule of the statement instances at this
  point (\<open>isl_ast_build_get_schedule\<close>), the number of output dimensions of its
  schedule space (\<open>isl_ast_build_get_schedule_space\<close>) and the expression it
  synthesises for an affine function of the loop iterators.\<close>
record isl_ast_build =
  schedule :: "(stmt_instance \<times> int list) set"
  schedule_space_dim :: nat
  expr_from_pw_aff :: "(int list \<times> int) set \<Rightarrow> isl_ast_expr"
    \<comment> \<open>\<open>isl_ast_build_expr_from_pw_aff(build, _)\<close>\<close>

subsection \<open>The expression trees of the front end (struct pet_expr)\<close>

datatype pet_expr_type =
  pet_expr_access | pet_expr_call | pet_expr_double
  | pet_expr_unary | pet_expr_binary | pet_expr_ternary

text \<open>The members of \<open>struct pet_expr\<close> that cpu.c reads: \<open>type\<close>, the argument array
  \<open>args\<close> (\<open>n_arg\<close> is its length; an argument pointer may be null), \<open>acc.access\<close>,
  and the node's own text (operator, function name or literal).\<close>
datatype pet_expr =
  Pet_expr (type: pet_expr_type) (args: "pet_expr option list")
           (acc_access: isl_map) (op_text: string)

record pet_stmt =
  domain :: isl_id    \<comment> \<open>\<open>isl_set_get_tuple_id(stmt->domain)\<close>\<close>
  body :: "pet_expr option"

record pet_array =
  array_name :: string
  declared :: bool
  exposed :: bool

record ppcg_scop =
  dep_flow :: "(stmt_instance \<times> stmt_instance) set"
  dep_false :: "(stmt_instance \<times> stmt_instance) set"
  stmts :: "pet_stmt list"      \<comment> \<open>\<open>n_stmt\<close> is its length\<close>
  arrays :: "pet_array list"    \<comment> \<open>\<open>n_array\<close> is its length\<close>

record ppcg_options =
  openmp :: bool

subsection \<open>Annotations\<close>

text \<open>\<open>struct ppcg_stmt\<close>. The array \<open>access\<close> holds one list pointer per slot; a slot
  that \<open>isl_calloc_array\<close> zeroed and nothing filled is \<open>None\<close>.\<close>
record ppcg_stmt =
  stmt :: pet_stmt
  n_access :: nat
  access :: "isl_ast_expr list option list"

record ast_node_userinfo =
  is_openmp :: bool

record ast_build_userinfo =
  scop :: ppcg_scop
  in_parallel_for :: bool

record ppcg_add_access_data =
  data_stmt :: ppcg_stmt
  data_build :: isl_ast_build
  data_map :: "(int list \<times> stmt_instance) set"

text \<open>The generated tree. A loop carries its annotation (the id made by the pre-loop
  hook, null when no hook is registered), the text of its header and its body; a leaf
  carries the statement id named by the first operand of its call expression and its
  annotation.\<close>
datatype ast_node =
  Node_for "ast_node_userinfo option" string ast_node
  | Node_block "ast_node list"
  | Node_user isl_id "ppcg_stmt option"

subsection \<open>Operations of the polyhedral library, by their meaning on relations\<close>

text \<open>Modelled from the spec: the relation algebra of the polyhedral library (composition
  with a relation on the range or on the domain, reversal, equating of two dimensions,
  component of a multi-expression), which is not among the sources. A relation is the
  set of its pairs; emptiness and inclusion are those of sets.\<close>
definition isl_map_apply_range :: "('a \<times> 'b) set \<Rightarrow> ('b \<times> 'c) set \<Rightarrow> ('a \<times> 'c) set" where
  "isl_map_apply_range m1 m2 = m1 O m2"

definition isl_map_apply_domain :: "('a \<times> 'b) set \<Rightarrow> ('a \<times> 'c) set \<Rightarrow> ('c \<times> 'b) set" where
  "isl_map_apply_domain m1 m2 = converse m2 O m1"

definition isl_map_reverse :: "('a \<times> 'b) set \<Rightarrow> ('b \<times> 'a) set" where
  "isl_map_reverse m = converse m"

text \<open>\<open>isl_map_equate(m, isl_dim_out, i, isl_dim_in, j)\<close>.\<close>
definition isl_map_equate :: "(int list \<times> int list) set \<Rightarrow> nat \<Rightarrow> nat \<Rightarrow> (int list \<times> int list) set" where
  "isl_map_equate m i j = {(s, t). (s, t) \<in> m \<and> t ! i = s ! j}"

text \<open>The \<open>i\<close>-th component of the multi-expression of a relation.\<close>
definition isl_pw_multi_aff_get_pw_aff :: "('a \<times> int list) set \<Rightarrow> nat \<Rightarrow> ('a \<times> int) set" where
  "isl_pw_multi_aff_get_pw_aff pma i = {(t, v ! i) | t v. (t, v) \<in> pma}"

section \<open>Traversal of a statement body\<close>

text \<open>\<open>foreach_access_expr\<close>: the callback returns an int and the updated user data;
  the loop over the arguments is \<open>foreach_access_args\<close>.\<close>
function foreach_access_expr ::
    "pet_expr option \<Rightarrow> (pet_expr \<Rightarrow> 'u \<Rightarrow> (int \<times> 'u) option) \<Rightarrow> 'u \<Rightarrow> (int \<times> 'u) option"
  and foreach_access_args ::
    "pet_expr option list \<Rightarrow> (pet_expr \<Rightarrow> 'u \<Rightarrow> (int \<times> 'u) option) \<Rightarrow> 'u \<Rightarrow> (int \<times> 'u) option"
where
  "foreach_access_expr None fn user = Some (- 1, user)"
| "foreach_access_expr (Some expr) fn user =
     (if type expr = pet_expr_access then fn expr user
      else foreach_access_args (args expr) fn user)"
| "foreach_access_args [] fn user = Some (0, user)"
| "foreach_access_args (a # as) fn user =
     (case foreach_access_expr a fn user of
        None \<Rightarrow> None
      | Some (r, user') \<Rightarrow>
          if r < 0 then Some (- 1, user') else foreach_access_args as fn user')"
  by pat_completeness auto

termination
proof (relation "measure (\<lambda>x. case x of
         Inl (e, fn, u) \<Rightarrow> size_option size e
       | Inr (as, fn, u) \<Rightarrow> size_list (size_option size) as)")
  fix expr :: pet_expr and fn :: "pet_expr \<Rightarrow> 'u \<Rightarrow> (int \<times> 'u) option" and user :: 'u
  have "size_list (size_option size) (args expr) < size expr"
    by (cases expr) simp
  then show "(Inr (args expr, fn, user), Inl (Some expr, fn, user))
      \<in> measure (\<lambda>x. case x of
         Inl (e, fn, u) \<Rightarrow> size_option size e
       | Inr (as, fn, u) \<Rightarrow> size_list (size_option size) as)"
    by simp
qed auto

definition inc_n_access :: "pet_expr \<Rightarrow> ppcg_stmt \<Rightarrow> (int \<times> ppcg_stmt) option" where
  "inc_n_access expr st = Some (0, st\<lparr>n_access := n_access st + 1\<rparr>)"

text \<open>\<open>add_access\<close>. The store \<open>access[n_access] = index\<close> past the allocated array is
  undefined.\<close>
definition add_access :: "pet_expr \<Rightarrow> ppcg_add_access_data \<Rightarrow> (int \<times> ppcg_add_access_data) option" where
  "add_access expr data =
     (let n = dim_out (acc_access expr);
          acc = isl_map_apply_range (data_map data) (pairs (acc_access expr));
          pma = acc;
          index = map (\<lambda>i. expr_from_pw_aff (data_build data)
                              (isl_pw_multi_aff_get_pw_aff pma i)) [0..<n];
          st = data_stmt data
      in if n_access st < length (access st)
         then Some (0, data\<lparr>data_stmt :=
                  st\<lparr>access := (access st)[n_access st := Some index],
                     n_access := n_access st + 1\<rparr>\<rparr>)
         else None)"

text \<open>\<open>find_stmt\<close>: the first statement whose domain carries the id, or NULL.\<close>
definition find_stmt :: "ppcg_scop \<Rightarrow> isl_id \<Rightarrow> pet_stmt option" where
  "find_stmt sc sid = find (\<lambda>s. domain s = sid) (stmts sc)"

text \<open>\<open>at_each_domain\<close>. The outer \<open>None\<close> is undefined behaviour, \<open>Some None\<close> the
  NULL node of the error path. On that path \<open>ppcg_stmt_free\<close> reads \<open>stmt->access[i]\<close>
  for every \<open>i < stmt->n_access\<close>: when the counting pass fails after it has counted
  an access, the array is still the null pointer and the read is undefined; when no
  statement is found, \<open>n_access\<close> is still 0. Allocation is taken to succeed.\<close>
definition at_each_domain :: "ast_node \<Rightarrow> isl_ast_build \<Rightarrow> ppcg_scop \<Rightarrow> ast_node option option" where
  "at_each_domain node build sc =
     (case node of
        Node_user sid a \<Rightarrow>
          (case find_stmt sc sid of
             None \<Rightarrow> Some None
           | Some s \<Rightarrow>
               (case foreach_access_expr (body s) inc_n_access
                       \<lparr>stmt = s, n_access = 0, access = []\<rparr> of
                  None \<Rightarrow> None
                | Some (r, st) \<Rightarrow>
                    if r < 0 then (if 0 < n_access st then None else Some None)
                    else
                      (let st = st\<lparr>access := replicate (n_access st) None\<rparr>;
                           m = isl_map_reverse (schedule build);
                           st = st\<lparr>n_access := 0\<rparr>;
                           data = \<lparr>data_stmt = st, data_build = build, data_map = m\<rparr>
                       in case foreach_access_expr (body s) add_access data of
                            None \<Rightarrow> None
                          | Some (r, data) \<Rightarrow>
                              if r < 0 then Some None
                              else Some (Some (Node_user sid (Some (data_stmt data)))))))
      | _ \<Rightarrow> None)"

section \<open>Printing\<close>

text \<open>What reaches the output file is kept as the sequence of the emissions made on
  it, one item per call of a printing function of a library.\<close>
datatype out =
  Str string                \<comment> \<open>\<open>isl_printer_print_str\<close>, \<open>fprintf\<close>\<close>
  | Ast_expr isl_ast_expr   \<comment> \<open>\<open>isl_printer_print_ast_expr\<close>\<close>
  | Start_line | End_line
  | Macros                  \<comment> \<open>\<open>isl_ast_node_print_macros\<close>\<close>
  | For_begin string | For_end   \<comment> \<open>the default printing of a loop, around its body\<close>
  | Start_block | End_block      \<comment> \<open>\<open>ppcg_start_block\<close>, \<open>ppcg_end_block\<close>\<close>
  | Declaration pet_array        \<comment> \<open>the declaration of one array\<close>
  | Before_scop string | After_scop string
      \<comment> \<open>the text of the input before and after the region, copied\<close>

text \<open>Modelled from the spec: the printer of the polyhedral library and its printing
  functions, which are not among the sources. An \<open>isl_printer\<close> on a file is what it
  has written, and whether the pointer has become NULL: every printing function returns
  NULL on a NULL printer and writes nothing, and printing a NULL expression makes the
  printer NULL; what was written before stays in the file.\<close>
record isl_printer =
  is_null :: bool
  written :: "out list"

definition emit :: "isl_printer \<Rightarrow> out list \<Rightarrow> isl_printer" where
  "emit p xs = (if is_null p then p else p\<lparr>written := written p @ xs\<rparr>)"

definition isl_printer_print_str :: "isl_printer \<Rightarrow> string \<Rightarrow> isl_printer" where
  "isl_printer_print_str p s = emit p [Str s]"

definition isl_printer_print_ast_expr :: "isl_printer \<Rightarrow> isl_ast_expr option \<Rightarrow> isl_printer" where
  "isl_printer_print_ast_expr p e =
     (case e of None \<Rightarrow> p\<lparr>is_null := True\<rparr> | Some x \<Rightarrow> emit p [Ast_expr x])"

definition isl_printer_start_line :: "isl_printer \<Rightarrow> isl_printer" where
  "isl_printer_start_line p = emit p [Start_line]"

definition isl_printer_end_line :: "isl_printer \<Rightarrow> isl_printer" where
  "isl_printer_end_line p = emit p [End_line]"

text \<open>Modelled from the spec: the length of an expression list and its element at a
  position, of the polyhedral library; a NULL list has length 0, and a position past
  the list yields NULL.\<close>
definition isl_ast_expr_list_n_ast_expr :: "isl_ast_expr list option \<Rightarrow> nat" where
  "isl_ast_expr_list_n_ast_expr l = (case l of None \<Rightarrow> 0 | Some xs \<Rightarrow> length xs)"

definition isl_ast_expr_list_get_ast_expr :: "isl_ast_expr list option \<Rightarrow> nat \<Rightarrow> isl_ast_expr option" where
  "isl_ast_expr_list_get_ast_expr l i =
     (case l of None \<Rightarrow> None | Some xs \<Rightarrow> if i < length xs then Some (xs ! i) else None)"

text \<open>\<open>print_access\<close>.\<close>
definition print_access :: "isl_printer \<Rightarrow> pet_expr \<Rightarrow> isl_ast_expr list option \<Rightarrow> isl_printer" where
  "print_access p expr acc =
     (let n_index = isl_ast_expr_list_n_ast_expr acc;
          name = tuple_name (acc_access expr)
      in case name of
           None \<Rightarrow>
             (let index = isl_ast_expr_list_get_ast_expr acc 0;
                  p = isl_printer_print_str p ''('';
                  p = isl_printer_print_ast_expr p index;
                  p = isl_printer_print_str p '')''
              in p)
         | Some name \<Rightarrow>
             fold (\<lambda>i p.
                     let index = isl_ast_expr_list_get_ast_expr acc i;
                         p = isl_printer_print_str p ''['';
                         p = isl_printer_print_ast_expr p index;
                         p = isl_printer_print_str p '']''
                     in p)
                  [0..<n_index] (isl_printer_print_str p name))"

text \<open>\<open>print_access_expr\<close>. The user data is the cursor into the array of transformed
  accesses: the slots from the cursor on. Reading at a cursor past the array is
  undefined.\<close>
definition print_access_expr ::
    "isl_printer \<Rightarrow> pet_expr \<Rightarrow> isl_ast_expr list option list
      \<Rightarrow> (isl_printer \<times> isl_ast_expr list option list) option" where
  "print_access_expr p expr cursor =
     (case cursor of
        [] \<Rightarrow> None
      | a # rest \<Rightarrow> Some (print_access p expr a, rest))"

text \<open>Modelled from the spec: \<open>print_pet_expr\<close> of pet_printer.c, which is not among the
  sources. It re-emits the body, walking it in the traversal order of construction and
  handing every access sub-expression to the callback in place of its text. The text of
  any other node is emitted as one string before its arguments.\<close>
function print_pet_expr ::
    "isl_printer \<Rightarrow> pet_expr option
      \<Rightarrow> (isl_printer \<Rightarrow> pet_expr \<Rightarrow> 'u \<Rightarrow> (isl_printer \<times> 'u) option) \<Rightarrow> 'u
      \<Rightarrow> (isl_printer \<times> 'u) option"
  and print_pet_args ::
    "isl_printer \<Rightarrow> pet_expr option list
      \<Rightarrow> (isl_printer \<Rightarrow> pet_expr \<Rightarrow> 'u \<Rightarrow> (isl_printer \<times> 'u) option) \<Rightarrow> 'u
      \<Rightarrow> (isl_printer \<times> 'u) option"
where
  "print_pet_expr p None fn user = None"
| "print_pet_expr p (Some expr) fn user =
     (if type expr = pet_expr_access then fn p expr user
      else print_pet_args (isl_printer_print_str p (op_text expr)) (args expr) fn user)"
| "print_pet_args p [] fn user = Some (p, user)"
| "print_pet_args p (a # as) fn user =
     (case print_pet_expr p a fn user of
        None \<Rightarrow> None
      | Some (p', user') \<Rightarrow> print_pet_args p' as fn user')"
  by pat_completeness auto

termination
proof (relation "measure (\<lambda>x. case x of
         Inl (p, e, fn, u) \<Rightarrow> size_option size e
       | Inr (p, as, fn, u) \<Rightarrow> size_list (size_option size) as)")
  fix p :: isl_printer and expr :: pet_expr and user :: 'u
    and fn :: "isl_printer \<Rightarrow> pet_expr \<Rightarrow> 'u \<Rightarrow> (isl_printer \<times> 'u) option"
  have "size_list (size_option size) (args expr) < size expr"
    by (cases expr) simp
  then show "(Inr (isl_printer_print_str p (op_text expr), args expr, fn, user),
              Inl (p, Some expr, fn, user))
      \<in> measure (\<lambda>x. case x of
         Inl (p, e, fn, u) \<Rightarrow> size_option size e
       | Inr (p, as, fn, u) \<Rightarrow> size_list (size_option size) as)"
    by simp
qed auto

text \<open>\<open>print_user\<close>. A leaf without annotation makes \<open>stmt->access\<close> a null
  dereference.\<close>
definition print_user :: "isl_printer \<Rightarrow> ast_node \<Rightarrow> isl_printer option" where
  "print_user p node =
     (case node of
        Node_user sid (Some st) \<Rightarrow>
          (let cursor = access st;
               p = isl_printer_start_line p
           in case print_pet_expr p (body (stmt st)) print_access_expr cursor of
                None \<Rightarrow> None
              | Some (p, cursor) \<Rightarrow>
                  Some (isl_printer_end_line (isl_printer_print_str p '';'')))
      | _ \<Rightarrow> None)"


section \<open>Parallelism of a schedule dimension\<close>

text \<open>\<open>ast_schedule_dim_is_parallel\<close>. \<open>dimension\<close> is an \<open>unsigned\<close>: the subtraction
  wraps. The dependences are composed with the schedule on range and domain; the result
  relates timestamp vectors of the schedule space.\<close>
definition ast_schedule_dim_is_parallel :: "isl_ast_build \<Rightarrow> ppcg_scop \<Rightarrow> bool" where
  "ast_schedule_dim_is_parallel build sc =
     (let sched = schedule build;
          dimension = unat (word_of_nat (schedule_space_dim build) - (1 :: 32 word));
          deps = dep_flow sc;
          deps = deps \<union> dep_false sc;
          deps = isl_map_apply_range deps sched;
          deps = isl_map_apply_domain deps sched
      in if deps = {} then True
         else
           (let schedule_deps = fold (\<lambda>i m. isl_map_equate m i i) [0..<dimension] deps;
                test = UNIV;
                test = isl_map_equate test dimension dimension
            in schedule_deps \<subseteq> test))"

section \<open>The hooks of tree construction\<close>

definition mark_openmp_parallel ::
    "isl_ast_build \<Rightarrow> ast_build_userinfo \<Rightarrow> ast_node_userinfo
      \<Rightarrow> ast_build_userinfo \<times> ast_node_userinfo" where
  "mark_openmp_parallel build build_info node_info =
     (if in_parallel_for build_info then (build_info, node_info)
      else if ast_schedule_dim_is_parallel build (scop build_info)
      then (build_info\<lparr>in_parallel_for := True\<rparr>, node_info\<lparr>is_openmp := True\<rparr>)
      else (build_info, node_info))"

definition allocate_ast_node_userinfo :: ast_node_userinfo where
  "allocate_ast_node_userinfo = \<lparr>is_openmp = False\<rparr>"

text \<open>\<open>ast_build_before_for\<close>: the annotation id of the loop to come, and the updated
  build information.\<close>
definition ast_build_before_for ::
    "isl_ast_build \<Rightarrow> ast_build_userinfo \<Rightarrow> ast_node_userinfo option \<times> ast_build_userinfo" where
  "ast_build_before_for build build_info =
     (let node_info = allocate_ast_node_userinfo;
          (build_info, node_info) = mark_openmp_parallel build build_info node_info
      in (Some node_info, build_info))"

text \<open>The annotation of a node as the loop hooks read it; only a loop carries an
  \<open>ast_node_userinfo\<close>.\<close>
fun for_annotation :: "ast_node \<Rightarrow> ast_node_userinfo option" where
  "for_annotation (Node_for a h b) = a"
| "for_annotation (Node_block ns) = None"
| "for_annotation (Node_user sid a) = None"

definition ast_build_after_for ::
    "ast_node \<Rightarrow> isl_ast_build \<Rightarrow> ast_build_userinfo \<Rightarrow> ast_node \<times> ast_build_userinfo" where
  "ast_build_after_for node build build_info =
     (case for_annotation node of
        Some info \<Rightarrow>
          if is_openmp info then (node, build_info\<lparr>in_parallel_for := False\<rparr>)
          else (node, build_info)
      | None \<Rightarrow> (node, build_info))"

section \<open>The tree-construction engine\<close>

text \<open>The loop nest the engine derives from the context and the schedule restricted to
  the domain: for every loop the build at the point where its hooks run and the text of
  its header, for every leaf the build there and the statement id it names.\<close>
datatype nest =
  Nest_for isl_ast_build string nest
  | Nest_block "nest list"
  | Nest_user isl_ast_build isl_id

text \<open>Modelled from the spec: \<open>isl_ast_build_ast_from_schedule\<close> of the polyhedral
  library, which is not among the sources. The leaf hook runs once per leaf; when the
  loop hooks are registered (first argument), the pre-loop hook runs before any
  descendant of the loop is built and its id becomes the loop's annotation, and the
  post-loop hook runs on the completed loop. A hook that returns NULL makes the whole
  tree NULL. The outer \<open>None\<close> is the undefined behaviour of a hook.\<close>
fun isl_ast_build_ast_from_schedule ::
    "bool \<Rightarrow> ppcg_scop \<Rightarrow> nest \<Rightarrow> ast_build_userinfo
      \<Rightarrow> (ast_node option \<times> ast_build_userinfo) option"
  and ast_list_from_schedule ::
    "bool \<Rightarrow> ppcg_scop \<Rightarrow> nest list \<Rightarrow> ast_build_userinfo
      \<Rightarrow> (ast_node list option \<times> ast_build_userinfo) option"
where
  "isl_ast_build_ast_from_schedule hooks sc (Nest_user build sid) bi =
     (case at_each_domain (Node_user sid None) build sc of
        None \<Rightarrow> None
      | Some node \<Rightarrow> Some (node, bi))"
| "isl_ast_build_ast_from_schedule hooks sc (Nest_for build h b) bi =
     (let (ann, bi) = (if hooks then ast_build_before_for build bi else (None, bi))
      in case isl_ast_build_ast_from_schedule hooks sc b bi of
           None \<Rightarrow> None
         | Some (None, bi) \<Rightarrow> Some (None, bi)
         | Some (Some t, bi) \<Rightarrow>
             (let (node, bi) = (if hooks then ast_build_after_for (Node_for ann h t) build bi
                                else (Node_for ann h t, bi))
              in Some (Some node, bi)))"
| "isl_ast_build_ast_from_schedule hooks sc (Nest_block ns) bi =
     (case ast_list_from_schedule hooks sc ns bi of
        None \<Rightarrow> None
      | Some (None, bi) \<Rightarrow> Some (None, bi)
      | Some (Some ts, bi) \<Rightarrow> Some (Some (Node_block ts), bi))"
| "ast_list_from_schedule hooks sc [] bi = Some (Some [], bi)"
| "ast_list_from_schedule hooks sc (n # ns) bi =
     (case isl_ast_build_ast_from_schedule hooks sc n bi of
        None \<Rightarrow> None
      | Some (None, bi) \<Rightarrow> Some (None, bi)
      | Some (Some t, bi) \<Rightarrow>
          (case ast_list_from_schedule hooks sc ns bi of
             None \<Rightarrow> None
           | Some (None, bi) \<Rightarrow> Some (None, bi)
           | Some (Some ts, bi) \<Rightarrow> Some (Some (t # ts), bi)))"

section \<open>Printing the tree\<close>

text \<open>\<open>print_for_with_openmp\<close> and \<open>print_for\<close>. The argument \<open>for_print\<close> stands for
  \<open>isl_ast_node_for_print(node, _, print_options)\<close>, the default printing of this
  loop.\<close>
definition print_for_with_openmp ::
    "(isl_printer \<Rightarrow> isl_printer option) \<Rightarrow> isl_printer \<Rightarrow> isl_printer option" where
  "print_for_with_openmp for_print p =
     (let p = isl_printer_start_line p;
          p = isl_printer_print_str p ''#pragma omp parallel for'';
          p = isl_printer_end_line p
      in for_print p)"

definition print_for ::
    "isl_printer \<Rightarrow> ast_node \<Rightarrow> (isl_printer \<Rightarrow> isl_printer option) \<Rightarrow> isl_printer option" where
  "print_for p node for_print =
     (let omp = (case for_annotation node of
                   Some info \<Rightarrow> is_openmp info
                 | None \<Rightarrow> False)
      in if omp then print_for_with_openmp for_print p else for_print p)"

text \<open>Modelled from the spec: the generic tree printer \<open>isl_ast_node_print\<close> with the two
  registered callbacks. A leaf goes to \<open>print_user\<close>, a loop to \<open>print_for\<close>, whose default
  printing emits the header, the body and the end of the loop.\<close>
fun isl_ast_node_print :: "ast_node \<Rightarrow> isl_printer \<Rightarrow> isl_printer option"
  and isl_ast_node_list_print :: "ast_node list \<Rightarrow> isl_printer \<Rightarrow> isl_printer option"
where
  "isl_ast_node_print (Node_user sid a) p = print_user p (Node_user sid a)"
| "isl_ast_node_print (Node_for a h b) p =
     print_for p (Node_for a h b)
       (\<lambda>p. case isl_ast_node_print b (emit p [For_begin h]) of
               None \<Rightarrow> None
             | Some p \<Rightarrow> Some (emit p [For_end]))"
| "isl_ast_node_print (Node_block ns) p = isl_ast_node_list_print ns p"
| "isl_ast_node_list_print [] p = Some p"
| "isl_ast_node_list_print (n # ns) p =
     (case isl_ast_node_print n p of
        None \<Rightarrow> None
      | Some p \<Rightarrow> isl_ast_node_list_print ns p)"

text \<open>Modelled from the spec: the helper-macro text the tree requires. On a NULL tree
  the library frees the printer and returns NULL.\<close>
definition isl_ast_node_print_macros :: "ast_node option \<Rightarrow> isl_printer \<Rightarrow> isl_printer" where
  "isl_ast_node_print_macros tree p =
     (case tree of None \<Rightarrow> p\<lparr>is_null := True\<rparr> | Some t \<Rightarrow> emit p [Macros])"

text \<open>\<open>print_scop\<close>. \<open>uninit\<close> is the indeterminate content of the local \<open>build_info\<close>, which
  is initialised only when the \<open>openmp\<close> option is set.\<close>
definition print_scop ::
    "ppcg_scop \<Rightarrow> isl_printer \<Rightarrow> ppcg_options \<Rightarrow> nest \<Rightarrow> ast_build_userinfo
      \<Rightarrow> isl_printer option" where
  "print_scop sc p options nst uninit =
     (let build_info = (if openmp options then \<lparr>scop = sc, in_parallel_for = False\<rparr>
                        else uninit)
      in case isl_ast_build_ast_from_schedule (openmp options) sc nst build_info of
           None \<Rightarrow> None
         | Some (tree, bi) \<Rightarrow>
             (let p = isl_ast_node_print_macros tree p
              in case tree of
                   None \<Rightarrow> Some (p\<lparr>is_null := True\<rparr>)
                 | Some t \<Rightarrow> isl_ast_node_print t p))"


section \<open>The driver\<close>

text \<open>\<open>strrchr\<close> of the C library: the pointer to the last occurrence of the
  character, as the rest of the string from there on, or NULL.\<close>
fun strrchr :: "string \<Rightarrow> char \<Rightarrow> string option" where
  "strrchr [] c = None"
| "strrchr (x # xs) c =
     (case strrchr xs c of
        Some r \<Rightarrow> Some r
      | None \<Rightarrow> if x = c then Some (x # xs) else None)"

text \<open>The size of the buffer \<open>name\<close>, from \<open>limits.h\<close> (its value on Linux).\<close>
definition PATH_MAX :: nat where
  "PATH_MAX = 4096"

text \<open>The first part of \<open>get_output_file\<close>: the content of the buffer \<open>name\<close> after the
  three copies. \<open>strcpy\<close> from the null \<open>ext\<close> and a copy past the buffer are
  undefined.\<close>
definition get_output_name :: "string \<Rightarrow> string option" where
  "get_output_name input =
     (let ppcg_marker = ''.ppcg'';
          base = (case strrchr input CHR ''/'' of Some b \<Rightarrow> tl b | None \<Rightarrow> input);
          ext = strrchr base CHR ''.'';
          len = (case ext of Some e \<Rightarrow> length base - length e | None \<Rightarrow> length base)
      in case ext of
           None \<Rightarrow> None
         | Some e \<Rightarrow>
             if PATH_MAX < len + length ppcg_marker + length e + 1 then None
             else Some (take len base @ ppcg_marker @ e))"

text \<open>The file system as the driver sees it: for a path that opens for reading, the
  text a read of it yields during the run; and the paths that open for writing.\<close>
record env =
  files :: "string \<Rightarrow> string option"
  writable :: "string \<Rightarrow> bool"

text \<open>\<open>fopen(path, "w")\<close> of the C library: the open output file is named by its path;
  NULL on failure.\<close>
definition fopen_w :: "env \<Rightarrow> string \<Rightarrow> string option" where
  "fopen_w e path = (if writable e path then Some path else None)"

text \<open>\<open>get_output_file\<close>. The name is derived whether or not an output path is given.\<close>
definition get_output_file :: "env \<Rightarrow> string \<Rightarrow> string option \<Rightarrow> string option option" where
  "get_output_file e input output =
     (case get_output_name input of
        None \<Rightarrow> None
      | Some name \<Rightarrow>
          (let output = (case output of None \<Rightarrow> name | Some out \<Rightarrow> out)
           in Some (fopen_w e output)))"

text \<open>\<open>any_hidden_declarations\<close>.\<close>
definition any_hidden_declarations :: "ppcg_scop option \<Rightarrow> bool" where
  "any_hidden_declarations ps =
     (case ps of
        None \<Rightarrow> False
      | Some sc \<Rightarrow> list_ex (\<lambda>a. declared a \<and> \<not> exposed a) (arrays sc))"

text \<open>Modelled from the spec: the declaration printers and the block brackets of
  print.c, which is not among the sources. The exposed declarations are those of the
  arrays that are declared and exposed, the hidden ones those of the arrays that are
  declared and not exposed, each in the order of the array list.\<close>
definition ppcg_print_exposed_declarations :: "isl_printer \<Rightarrow> ppcg_scop \<Rightarrow> isl_printer" where
  "ppcg_print_exposed_declarations p sc =
     emit p (map Declaration (filter (\<lambda>a. declared a \<and> exposed a) (arrays sc)))"

definition ppcg_print_hidden_declarations :: "isl_printer \<Rightarrow> ppcg_scop \<Rightarrow> isl_printer" where
  "ppcg_print_hidden_declarations p sc =
     emit p (map Declaration (filter (\<lambda>a. declared a \<and> \<not> exposed a) (arrays sc)))"

definition ppcg_start_block :: "isl_printer \<Rightarrow> isl_printer" where
  "ppcg_start_block p = emit p [Start_block]"

definition ppcg_end_block :: "isl_printer \<Rightarrow> isl_printer" where
  "ppcg_end_block p = emit p [End_block]"

text \<open>Modelled from the spec: \<open>copy_before_scop\<close> and \<open>copy_after_scop\<close> of rewrite.c,
  which is not among the sources: the text of the input that precedes, and that
  follows, the region, appended unchanged to the output file.\<close>
definition copy_before_scop :: "string \<Rightarrow> out list \<Rightarrow> out list" where
  "copy_before_scop text f = f @ [Before_scop text]"

definition copy_after_scop :: "string \<Rightarrow> out list \<Rightarrow> out list" where
  "copy_after_scop text f = f @ [After_scop text]"

text \<open>The text of the \<open>fprintf\<close> in \<open>generate_cpu\<close>.\<close>
definition marker_comment :: string where
  "marker_comment = ''/* ppcg generated CPU code */'' @ [CHR 0x0A, CHR 0x0A]"

text \<open>\<open>generate_cpu\<close>. The result is the returned int and, when an output file was
  opened, its path and what was written to it; \<open>None\<close> is undefined behaviour. Neither
  \<open>fopen\<close> is checked: a null \<open>FILE\<close> pointer reaches \<open>copy_before_scop\<close>, \<open>fprintf\<close>
  and \<open>fclose\<close>. The printer writes to the output file, so the file holds what the
  printer has written also when the printer has become NULL.\<close>
definition generate_cpu ::
    "ppcg_scop option \<Rightarrow> ppcg_options \<Rightarrow> string \<Rightarrow> string option
      \<Rightarrow> env \<Rightarrow> nest \<Rightarrow> ast_build_userinfo
      \<Rightarrow> (int \<times> (string \<times> out list) option) option" where
  "generate_cpu ps options input output e nst uninit =
     (case ps of
        None \<Rightarrow> Some (- 1, None)
      | Some sc \<Rightarrow>
          (let input_file = files e input
           in case get_output_file e input output of
                None \<Rightarrow> None
              | Some output_file \<Rightarrow>
                  (case (input_file, output_file) of
                     (Some text, Some path) \<Rightarrow>
                       (let f = copy_before_scop text [];
                            f = f @ [Str marker_comment];
                            p = \<lparr>is_null = False, written = f\<rparr>;
                            p = ppcg_print_exposed_declarations p sc;
                            hidden = any_hidden_declarations ps;
                            p = (if hidden
                                 then ppcg_print_hidden_declarations (ppcg_start_block p) sc
                                 else p)
                        in case print_scop sc p options nst uninit of
                             None \<Rightarrow> None
                           | Some p \<Rightarrow>
                               (let p = (if hidden then ppcg_end_block p else p);
                                    f = copy_after_scop text (written p)
                                in Some (0, Some (path, f))))
                   | _ \<Rightarrow> None)))"


section \<open>Notions used to state the properties\<close>

text \<open>The access sub-expressions of a body in traversal order: an access node is a
  leaf of the traversal, whatever its own arguments are.\<close>
fun access_exprs :: "pet_expr option \<Rightarrow> pet_expr list" where
  "access_exprs None = []"
| "access_exprs (Some (Pet_expr t as m s)) =
     (if t = pet_expr_access then [Pet_expr t as m s] else concat (map access_exprs as))"

text \<open>A body the traversal walks without meeting a null pointer.\<close>
fun traversable :: "pet_expr option \<Rightarrow> bool" where
  "traversable None = False"
| "traversable (Some (Pet_expr t as m s)) =
     (t = pet_expr_access \<or> (\<forall>a \<in> set as. traversable a))"

text \<open>The access sub-expressions the traversal has passed when it returns: all of them
  on a body without null pointer, those before the first null pointer otherwise.\<close>
fun counted :: "pet_expr option \<Rightarrow> pet_expr list"
  and counted_args :: "pet_expr option list \<Rightarrow> pet_expr list"
where
  "counted None = []"
| "counted (Some (Pet_expr t as m s)) =
     (if t = pet_expr_access then [Pet_expr t as m s] else counted_args as)"
| "counted_args [] = []"
| "counted_args (a # as) =
     (if traversable a then counted a @ counted_args as else counted a)"

text \<open>A body on which the error path of \<open>at_each_domain\<close> is defined: it has no null
  pointer, or no access before its first null pointer.\<close>
definition count_safe :: "pet_expr option \<Rightarrow> bool" where
  "count_safe e = (traversable e \<or> counted e = [])"

text \<open>The index expressions of one access under a build and a map from the loop
  iterators to the statement instances, as \<open>add_access\<close> computes them.\<close>
definition transformed ::
    "isl_ast_build \<Rightarrow> (int list \<times> stmt_instance) set \<Rightarrow> pet_expr \<Rightarrow> isl_ast_expr list" where
  "transformed build m expr =
     map (\<lambda>i. expr_from_pw_aff build
                (isl_pw_multi_aff_get_pw_aff
                   (isl_map_apply_range m (pairs (acc_access expr))) i))
         [0..<dim_out (acc_access expr)]"

text \<open>One store of the filling pass.\<close>
definition store :: "isl_ast_expr list \<Rightarrow> ppcg_stmt \<Rightarrow> ppcg_stmt" where
  "store index st =
     st\<lparr>access := (access st)[n_access st := Some index], n_access := n_access st + 1\<rparr>"


text \<open>The greatest number of loops marked parallel along a path from the root of a
  tree to a leaf.\<close>
fun marked_depth :: "ast_node \<Rightarrow> nat" where
  "marked_depth (Node_user sid a) = 0"
| "marked_depth (Node_block ns) = fold max (map marked_depth ns) 0"
| "marked_depth (Node_for a h b) =
     (case a of Some info \<Rightarrow> if is_openmp info then 1 else 0 | None \<Rightarrow> 0) + marked_depth b"

text \<open>The items that printing a tree can emit.\<close>
fun tree_item :: "out \<Rightarrow> bool" where
  "tree_item Start_block = False"
| "tree_item End_block = False"
| "tree_item (Declaration a) = False"
| "tree_item (Before_scop t) = False"
| "tree_item (After_scop t) = False"
| "tree_item x = True"

text \<open>A printer whose file already held \<open>xs\<close>.\<close>
definition prefixed :: "out list \<Rightarrow> isl_printer \<Rightarrow> isl_printer" where
  "prefixed xs q = q\<lparr>written := xs @ written q\<rparr>"

text \<open>\<open>q\<close> has written what \<open>p\<close> had, followed by items of a tree only.\<close>
definition extends :: "isl_printer \<Rightarrow> isl_printer \<Rightarrow> bool" where
  "extends p q = (\<exists>xs. written q = written p @ xs \<and> (\<forall>x \<in> set xs. tree_item x))"

text \<open>The statement ids named by the leaves of a loop nest.\<close>
fun leaf_ids :: "nest \<Rightarrow> isl_id list" where
  "leaf_ids (Nest_user b sid) = [sid]"
| "leaf_ids (Nest_for b h n) = leaf_ids n"
| "leaf_ids (Nest_block ns) = concat (map leaf_ids ns)"

section \<open>A worked example\<close>

text \<open>One statement \<open>S\<close> over a loop \<open>i\<close> with body \<open>C[i] = A[i][i] + (i)\<close>, where the
  access to \<open>A\<close> carries arguments of its own (a nested access and a null pointer) and
  the last access is unnamed.\<close>

definition no_map :: isl_map where
  "no_map = \<lparr>tuple_name = None, dim_out = 0, pairs = {}\<rparr>"

definition ex_access :: "string option \<Rightarrow> nat \<Rightarrow> pet_expr option list \<Rightarrow> pet_expr" where
  "ex_access a n as =
     Pet_expr pet_expr_access as
       \<lparr>tuple_name = a, dim_out = n, pairs = {((''S'', [i]), replicate n i) | i. True}\<rparr> []"

definition ex_body :: pet_expr where
  "ex_body =
     Pet_expr pet_expr_binary
       [Some (ex_access (Some ''C'') 1 []),
        Some (Pet_expr pet_expr_binary
                [Some (ex_access (Some ''A'') 2 [Some (ex_access (Some ''B'') 1 []), None]),
                 Some (ex_access None 1 [])]
                no_map ''+'')]
       no_map ''=''"

definition ex_stmt :: pet_stmt where
  "ex_stmt = \<lparr>domain = ''S'', body = Some ex_body\<rparr>"

definition ex_array :: "string \<Rightarrow> bool \<Rightarrow> bool \<Rightarrow> pet_array" where
  "ex_array a d e = \<lparr>array_name = a, declared = d, exposed = e\<rparr>"

definition ex_scop :: ppcg_scop where
  "ex_scop = \<lparr>dep_flow = {}, dep_false = {}, stmts = [ex_stmt],
              arrays = [ex_array ''A'' True True, ex_array ''t'' True False,
                        ex_array ''C'' False True]\<rparr>"

text \<open>The same with a flow dependence from every iteration to the next.\<close>
definition ex_scop_carried :: ppcg_scop where
  "ex_scop_carried = ex_scop\<lparr>dep_flow := {((''S'', [i]), (''S'', [i + 1])) | i. True}\<rparr>"

definition ex_build :: isl_ast_build where
  "ex_build = \<lparr>schedule = {((''S'', [i]), [i]) | i. True}, schedule_space_dim = 1,
               expr_from_pw_aff = (\<lambda>pa. ''c0'')\<rparr>"

definition ex_leaf :: ast_node where
  "ex_leaf = Node_user ''S'' (Some \<lparr>stmt = ex_stmt, n_access = 3,
       access = [Some [''c0''], Some [''c0'', ''c0''], Some [''c0'']]\<rparr>)"

definition ex_printer :: isl_printer where
  "ex_printer = \<lparr>is_null = False, written = []\<rparr>"

text \<open>Two sibling loops over \<open>S\<close>, the first with an inner loop, and the tree built
  from them with the loop hooks registered.\<close>
definition ex_loops :: "nest list" where
  "ex_loops =
     [Nest_for ex_build ''for c0'' (Nest_for ex_build ''for c1'' (Nest_user ex_build ''S'')),
      Nest_for ex_build ''for c0'' (Nest_user ex_build ''S'')]"

definition ex_nest :: nest where
  "ex_nest = Nest_block ex_loops"

definition ex_trees :: "ast_node list" where
  "ex_trees =
     [Node_for (Some \<lparr>is_openmp = True\<rparr>) ''for c0''
        (Node_for (Some \<lparr>is_openmp = False\<rparr>) ''for c1'' ex_leaf),
      Node_for (Some \<lparr>is_openmp = True\<rparr>) ''for c0'' ex_leaf]"

definition ex_tree :: ast_node where
  "ex_tree = Node_block ex_trees"

definition ex_info :: ast_build_userinfo where
  "ex_info = \<lparr>scop = ex_scop, in_parallel_for = False\<rparr>"

text \<open>A run of the driver on the example: the options, the file system and what the
  tree prints as.\<close>
definition ex_options :: ppcg_options where
  "ex_options = \<lparr>openmp = True\<rparr>"

definition ex_env :: env where
  "ex_env = \<lparr>files = (\<lambda>p. if p = ''src/kernel.c'' then Some ''void f() { }'' else None),
             writable = (\<lambda>p. True)\<rparr>"

definition ex_line :: "out list" where
  "ex_line = [Start_line, Str ''='', Str ''C'', Str ''['', Ast_expr ''c0'', Str '']'',
          Str ''+'', Str ''A'', Str ''['', Ast_expr ''c0'', Str '']'', Str ''['', Ast_expr ''c0'', Str '']'',
          Str ''('', Ast_expr ''c0'', Str '')'', Str '';'', End_line]"

definition ex_tree_text :: "out list" where
  "ex_tree_text =
     [Macros, Start_line, Str ''#pragma omp parallel for'', End_line, For_begin ''for c0'',
      For_begin ''for c1''] @ ex_line @ [For_end, For_end,
      Start_line, Str ''#pragma omp parallel for'', End_line, For_begin ''for c0''] @ ex_line
      @ [For_end]"

text \<open>A loop nest over the example with one more leaf, which names a statement \<open>T\<close>
  that the statement list does not have.\<close>
definition ex_nest_missing :: nest where
  "ex_nest_missing =
     Nest_block [Nest_for ex_build ''for c0'' (Nest_user ex_build ''S''),
                 Nest_user ex_build ''T'']"

text \<open>A statement whose body has an access and then a null pointer.\<close>
definition ex_scop_broken :: ppcg_scop where
  "ex_scop_broken = ex_scop\<lparr>stmts :=
     [\<lparr>domain = ''T'',
       body = Some (Pet_expr pet_expr_binary [Some (ex_access (Some ''C'') 1 []), None]
                      no_map ''='')\<rparr>]\<rparr>"

section \<open>The two passes over a body\<close>

lemma access_exprs_Some:
  "access_exprs (Some e) =
     (if type e = pet_expr_access then [e] else concat (map access_exprs (args e)))"
  by (cases e) simp

lemma traversable_Some:
  "traversable (Some e) = (type e = pet_expr_access \<or> (\<forall>a \<in> set (args e). traversable a))"
  by (cases e) simp

lemma count_pass:
  "traversable e \<Longrightarrow> foreach_access_expr e inc_n_access st
      = Some (0, st\<lparr>n_access := n_access st + length (access_exprs e)\<rparr>)"
  "(\<forall>a \<in> set es. traversable a) \<Longrightarrow> foreach_access_args es inc_n_access st
      = Some (0, st\<lparr>n_access := n_access st + length (concat (map access_exprs es))\<rparr>)"
proof (induction e inc_n_access st and es inc_n_access st
       rule: foreach_access_expr_foreach_access_args.induct)
  case (1 user)
  then show ?case by simp
next
  case (2 expr user)
  then show ?case by (auto simp: access_exprs_Some traversable_Some inc_n_access_def)
next
  case (3 user)
  then show ?case by simp
next
  case (4 a as user)
  then show ?case by (simp add: add.assoc)
qed

lemma counted_Some:
  "counted (Some e) = (if type e = pet_expr_access then [e] else counted_args (args e))"
  by (cases e) simp

lemma counted_traversable:
  "traversable e \<Longrightarrow> counted e = access_exprs e"
  "(\<forall>a \<in> set es. traversable a) \<Longrightarrow> counted_args es = concat (map access_exprs es)"
  by (induction e and es rule: counted_counted_args.induct) auto

lemma count_pass_general:
  "foreach_access_expr e inc_n_access st
      = Some (if traversable e then 0 else - 1,
              st\<lparr>n_access := n_access st + length (counted e)\<rparr>)"
  "foreach_access_args es inc_n_access st
      = Some (if \<forall>a \<in> set es. traversable a then 0 else - 1,
              st\<lparr>n_access := n_access st + length (counted_args es)\<rparr>)"
proof (induction e inc_n_access st and es inc_n_access st
       rule: foreach_access_expr_foreach_access_args.induct)
  case (1 user)
  then show ?case by simp
next
  case (2 expr user)
  then show ?case by (auto simp: counted_Some traversable_Some inc_n_access_def)
next
  case (3 user)
  then show ?case by simp
next
  case (4 a as user)
  then show ?case by (simp add: add.assoc)
qed

lemma count_pass_fail:
  "\<not> traversable e \<Longrightarrow> \<exists>st'. foreach_access_expr e inc_n_access st = Some (- 1, st')"
  by (simp add: count_pass_general(1))

lemma add_access_store:
  "n_access (data_stmt d) < length (access (data_stmt d)) \<Longrightarrow>
   add_access x d
     = Some (0, d\<lparr>data_stmt := store (transformed (data_build d) (data_map d) x) (data_stmt d)\<rparr>)"
  by (simp add: add_access_def store_def transformed_def Let_def)

lemma store_fold_n: "n_access (fold (\<lambda>x. store (f x)) xs st) = n_access st + length xs"
  by (induction xs arbitrary: st) (simp_all add: store_def)

lemma store_fold_len: "length (access (fold (\<lambda>x. store (f x)) xs st)) = length (access st)"
  by (induction xs arbitrary: st) (simp_all add: store_def)

lemma store_fold_stmt: "stmt (fold (\<lambda>x. store (f x)) xs st) = stmt st"
  by (induction xs arbitrary: st) (simp_all add: store_def)

lemma store_fold_access:
  "n_access st + length xs \<le> length (access st) \<Longrightarrow>
   access (fold (\<lambda>x. store (f x)) xs st)
     = take (n_access st) (access st) @ map (\<lambda>x. Some (f x)) xs
        @ drop (n_access st + length xs) (access st)"
proof (induction xs arbitrary: st)
  case Nil
  then show ?case by simp
next
  case (Cons x xs)
  have "n_access (store (f x) st) + length xs \<le> length (access (store (f x) st))"
    using Cons.prems by (simp add: store_def)
  from Cons.IH [OF this] Cons.prems show ?case
    by (simp add: store_def take_Suc_conv_app_nth upd_conv_take_nth_drop)
qed

lemma fold_store_all:
  "fold (\<lambda>x. store (f x)) xs \<lparr>stmt = s, n_access = 0, access = replicate (length xs) None\<rparr>
     = \<lparr>stmt = s, n_access = length xs, access = map (\<lambda>x. Some (f x)) xs\<rparr>"
  by (rule ppcg_stmt.equality) (simp_all add: store_fold_n store_fold_stmt store_fold_access)

lemma fill_pass:
  "traversable e \<Longrightarrow>
   n_access (data_stmt d) + length (access_exprs e) \<le> length (access (data_stmt d)) \<Longrightarrow>
   foreach_access_expr e add_access d
      = Some (0, d\<lparr>data_stmt :=
                 fold (\<lambda>x. store (transformed (data_build d) (data_map d) x))
                      (access_exprs e) (data_stmt d)\<rparr>)"
  "(\<forall>a \<in> set es. traversable a) \<Longrightarrow>
   n_access (data_stmt d) + length (concat (map access_exprs es))
     \<le> length (access (data_stmt d)) \<Longrightarrow>
   foreach_access_args es add_access d
      = Some (0, d\<lparr>data_stmt :=
                 fold (\<lambda>x. store (transformed (data_build d) (data_map d) x))
                      (concat (map access_exprs es)) (data_stmt d)\<rparr>)"
proof (induction e add_access d and es add_access d
       rule: foreach_access_expr_foreach_access_args.induct)
  case (1 user)
  then show ?case by simp
next
  case (2 expr user)
  then show ?case by (auto simp: access_exprs_Some traversable_Some add_access_store)
next
  case (3 user)
  then show ?case by simp
next
  case (4 a as user)
  then show ?case by (simp add: store_fold_n store_fold_len)
qed

lemma at_each_domain_eq:
  "at_each_domain (Node_user sid a) build sc =
     (case find_stmt sc sid of
        None \<Rightarrow> Some None
      | Some s \<Rightarrow>
          if traversable (body s)
          then Some (Some (Node_user sid (Some
                 \<lparr>stmt = s, n_access = length (access_exprs (body s)),
                  access = map (\<lambda>x. Some (transformed build
                                            (isl_map_reverse (schedule build)) x))
                               (access_exprs (body s))\<rparr>)))
          else if counted (body s) = [] then Some None else None)"
proof (cases "find_stmt sc sid")
  case None
  then show ?thesis by (simp add: at_each_domain_def)
next
  case (Some s)
  show ?thesis
  proof (cases "traversable (body s)")
    case True
    then show ?thesis using Some
      by (simp add: at_each_domain_def count_pass fill_pass fold_store_all)
  next
    case False
    then show ?thesis using Some
      by (simp add: at_each_domain_def count_pass_general(1))
  qed
qed

section \<open>The cursor of the leaf printer\<close>




section \<open>The format of one access\<close>

lemma emit_emit: "emit (emit p xs) ys = emit p (xs @ ys)"
  by (simp add: emit_def)

lemma print_index_fold:
  "fold (\<lambda>i p. let index = isl_ast_expr_list_get_ast_expr (Some (xs @ ys)) i;
                    p = isl_printer_print_str p ''['';
                    p = isl_printer_print_ast_expr p index;
                    p = isl_printer_print_str p '']''
                in p) [0..<length xs] p0
     = emit p0 (concat (map (\<lambda>e. [Str ''['', Ast_expr e, Str '']'']) xs))"
proof (induction xs arbitrary: ys rule: rev_induct)
  case Nil
  then show ?case by (simp add: emit_def)
next
  case (snoc x xs)
  from snoc [of "x # ys"] show ?case
    by (simp add: isl_ast_expr_list_get_ast_expr_def isl_printer_print_str_def
          isl_printer_print_ast_expr_def emit_emit nth_append)
qed

lemma transformed_length: "length (transformed build m expr) = dim_out (acc_access expr)"
  by (simp add: transformed_def)

section \<open>The parallelism test, unfolded\<close>

lemma equate_fold:
  "fold (\<lambda>i m. isl_map_equate m i i) [0..<d] r = {(s, t). (s, t) \<in> r \<and> (\<forall>i<d. t ! i = s ! i)}"
proof (induction d)
  case 0
  then show ?case by simp
next
  case (Suc d)
  then show ?case by (auto simp: isl_map_equate_def less_Suc_eq)
qed

lemma composed_deps:
  "isl_map_apply_domain (isl_map_apply_range deps sched) sched
     = {(s, t). \<exists>a b. (a, b) \<in> deps \<and> (a, s) \<in> sched \<and> (b, t) \<in> sched}"
  by (auto simp: isl_map_apply_domain_def isl_map_apply_range_def)


lemma unsigned_pred:
  assumes "0 < n" and "n < 2 ^ 32"
  shows "unat (word_of_nat n - (1 :: 32 word)) = n - 1"
proof -
  from assms have "n = Suc (n - 1)" by simp
  then have "(word_of_nat n :: 32 word) - 1 = word_of_nat (n - 1)"
    by (metis add_diff_cancel_right' of_nat_Suc add.commute)
  moreover have "unat (word_of_nat (n - 1) :: 32 word) = (n - 1) mod 2 ^ LENGTH(32)"
    by (rule unat_of_nat)
  moreover have "(n - 1) mod 2 ^ LENGTH(32) = n - 1"
    using assms by simp
  ultimately show ?thesis by (simp only:)
qed


section \<open>The nesting flag\<close>

lemma fold_max_le: "fold max xs (a :: nat) \<le> k \<longleftrightarrow> a \<le> k \<and> (\<forall>x \<in> set xs. x \<le> k)"
  by (induction xs arbitrary: a) auto

lemma before_for_cases:
  "ast_build_before_for build bi =
     (if \<not> in_parallel_for bi \<and> ast_schedule_dim_is_parallel build (scop bi)
      then (Some \<lparr>is_openmp = True\<rparr>, bi\<lparr>in_parallel_for := True\<rparr>)
      else (Some \<lparr>is_openmp = False\<rparr>, bi))"
  by (simp add: ast_build_before_for_def mark_openmp_parallel_def allocate_ast_node_userinfo_def
        Let_def)

lemma after_for_cases:
  "ast_build_after_for (Node_for ann h t) build bi =
     (Node_for ann h t,
      if (case ann of Some info \<Rightarrow> is_openmp info | None \<Rightarrow> False)
      then bi\<lparr>in_parallel_for := False\<rparr> else bi)"
  by (simp add: ast_build_after_for_def split: option.splits)

lemma nesting_invariant:
  "isl_ast_build_ast_from_schedule True sc n bi = Some (Some t, bi') \<Longrightarrow>
     bi' = bi \<and> marked_depth t \<le> (if in_parallel_for bi then 0 else 1)"
  "ast_list_from_schedule True sc ns bi = Some (Some ts, bi') \<Longrightarrow>
     bi' = bi \<and> (\<forall>t \<in> set ts. marked_depth t \<le> (if in_parallel_for bi then 0 else 1))"
proof (induction True sc n bi and True sc ns bi arbitrary: t bi' and ts bi'
       rule: isl_ast_build_ast_from_schedule_ast_list_from_schedule.induct)
  case (1 sc build sid bi)
  then show ?case by (auto simp: at_each_domain_eq split: option.splits if_splits)
next
  case (2 sc build h b bi)
  show ?case
  proof (cases "\<not> in_parallel_for bi \<and> ast_schedule_dim_is_parallel build (scop bi)")
    case True
    with 2(2) obtain t0 bi0 where
      b: "isl_ast_build_ast_from_schedule True sc b (bi\<lparr>in_parallel_for := True\<rparr>) = Some (Some t0, bi0)"
      and t: "t = Node_for (Some \<lparr>is_openmp = True\<rparr>) h t0"
      and bi': "bi' = bi0\<lparr>in_parallel_for := False\<rparr>"
      by (auto simp: before_for_cases after_for_cases split: option.splits)
    from 2(1) [OF _ refl b] True have "bi0 = bi\<lparr>in_parallel_for := True\<rparr>" "marked_depth t0 = 0"
      by (simp_all add: before_for_cases)
    with t bi' True show ?thesis by simp
  next
    case False
    with 2(2) obtain t0 bi0 where
      b: "isl_ast_build_ast_from_schedule True sc b bi = Some (Some t0, bi0)"
      and t: "t = Node_for (Some \<lparr>is_openmp = False\<rparr>) h t0"
      and bi': "bi' = bi0"
      by (auto simp: before_for_cases after_for_cases split: option.splits)
    from 2(1) [OF _ refl b] False have "bi0 = bi" "marked_depth t0 \<le> (if in_parallel_for bi then 0 else 1)"
      by (simp_all add: before_for_cases)
    with t bi' show ?thesis by simp
  qed
next
  case (3 sc ns bi)
  from 3(2) obtain ts where
    l: "ast_list_from_schedule True sc ns bi = Some (Some ts, bi')" and t: "t = Node_block ts"
    by (auto split: option.splits)
  from 3(1) [OF l] have e: "bi' = bi"
    and m: "\<forall>t \<in> set ts. marked_depth t \<le> (if in_parallel_for bi then 0 else 1)"
    by simp_all
  from m have "fold max (map marked_depth ts) 0 \<le> (if in_parallel_for bi then 0 else 1)"
    unfolding fold_max_le by simp
  with e t show ?case by simp
next
  case (4 sc bi)
  then show ?case by simp
next
  case (5 sc n ns bi)
  from 5(3) obtain t0 bi0 ts0 where
    a: "isl_ast_build_ast_from_schedule True sc n bi = Some (Some t0, bi0)"
    and b: "ast_list_from_schedule True sc ns bi0 = Some (Some ts0, bi')"
    and ts: "ts = t0 # ts0"
    by (auto split: option.splits)
  from 5(1) [OF a] have e: "bi0 = bi" and m: "marked_depth t0 \<le> (if in_parallel_for bi then 0 else 1)"
    by simp_all
  from 5(2) [OF a refl refl b] e m ts show ?case by simp
qed


lemma for_marked_iff:
  "isl_ast_build_ast_from_schedule True sc (Nest_for b h n) bi = Some (Some t, bi') \<Longrightarrow>
     \<exists>t0. t = Node_for (Some \<lparr>is_openmp =
                    (\<not> in_parallel_for bi \<and> ast_schedule_dim_is_parallel b (scop bi))\<rparr>) h t0"
  by (cases "\<not> in_parallel_for bi \<and> ast_schedule_dim_is_parallel b (scop bi)")
     (auto simp: before_for_cases after_for_cases split: option.splits)

lemma siblings_independent:
  "ast_list_from_schedule True sc ns bi = Some (Some ts, bi') \<Longrightarrow> \<not> in_parallel_for bi \<Longrightarrow>
     length ts = length ns
     \<and> (\<forall>i<length ns. \<forall>b h n. ns ! i = Nest_for b h n \<longrightarrow>
           (\<exists>t. ts ! i = Node_for (Some \<lparr>is_openmp =
                                   ast_schedule_dim_is_parallel b (scop bi)\<rparr>) h t))"
proof (induction ns arbitrary: ts)
  case Nil
  then show ?case by simp
next
  case (Cons n ns)
  from Cons.prems(1) obtain t0 bi0 ts0 where
    a: "isl_ast_build_ast_from_schedule True sc n bi = Some (Some t0, bi0)"
    and b: "ast_list_from_schedule True sc ns bi0 = Some (Some ts0, bi')"
    and ts: "ts = t0 # ts0"
    by (auto split: option.splits)
  from nesting_invariant(1) [OF a] have e: "bi0 = bi" by simp
  from Cons.IH [OF b [unfolded e] Cons.prems(2)]
  have len: "length ts0 = length ns"
    and rest: "\<forall>i<length ns. \<forall>b h n. ns ! i = Nest_for b h n \<longrightarrow>
           (\<exists>t. ts0 ! i = Node_for (Some \<lparr>is_openmp =
                                   ast_schedule_dim_is_parallel b (scop bi)\<rparr>) h t)"
    by simp_all
  have hd: "\<forall>b h m. n = Nest_for b h m \<longrightarrow>
           (\<exists>t. t0 = Node_for (Some \<lparr>is_openmp =
                                   ast_schedule_dim_is_parallel b (scop bi)\<rparr>) h t)"
    using for_marked_iff a Cons.prems(2) by fastforce
  show ?case
  proof (intro conjI allI impI)
    show "length ts = length (n # ns)" using ts len by simp
  next
    fix i b h m
    assume i: "i < length (n # ns)" and ni: "(n # ns) ! i = Nest_for b h m"
    show "\<exists>t. ts ! i = Node_for (Some \<lparr>is_openmp =
                                   ast_schedule_dim_is_parallel b (scop bi)\<rparr>) h t"
    proof (cases i)
      case 0
      with ni hd ts show ?thesis by simp
    next
      case (Suc j)
      with i ni rest ts show ?thesis by simp
    qed
  qed
qed


section \<open>What the printers append\<close>

lemma extends_refl: "extends p p"
  by (simp add: extends_def)

lemma extends_trans: "extends p q \<Longrightarrow> extends q r \<Longrightarrow> extends p r"
  by (fastforce simp: extends_def)

lemma extends_emit: "(\<forall>x \<in> set xs. tree_item x) \<Longrightarrow> extends p (emit p xs)"
  by (simp add: extends_def emit_def)

lemma extends_null: "extends p (p\<lparr>is_null := b\<rparr>)"
  by (simp add: extends_def)

lemma extends_str: "extends p (isl_printer_print_str p s)"
  by (simp add: isl_printer_print_str_def extends_emit)

lemma extends_ast_expr: "extends p (isl_printer_print_ast_expr p e)"
  by (cases e) (simp_all add: isl_printer_print_ast_expr_def extends_emit extends_null)

lemma extends_start_line: "extends p (isl_printer_start_line p)"
  by (simp add: isl_printer_start_line_def extends_emit)

lemma extends_end_line: "extends p (isl_printer_end_line p)"
  by (simp add: isl_printer_end_line_def extends_emit)

lemma extends_index_fold:
  "extends p (fold (\<lambda>i p. isl_printer_print_str
                 (isl_printer_print_ast_expr (isl_printer_print_str p ''['')
                    (isl_ast_expr_list_get_ast_expr l i)) '']'') is p)"
proof (induction "is" arbitrary: p)
  case Nil
  then show ?case by (simp add: extends_refl)
next
  case (Cons i "is")
  have "extends p (isl_printer_print_str (isl_printer_print_ast_expr (isl_printer_print_str p ''['')
            (isl_ast_expr_list_get_ast_expr l i)) '']'')"
    by (blast intro: extends_trans extends_str extends_ast_expr)
  from this Cons show ?case unfolding fold_simps by (rule extends_trans)
qed

lemma extends_print_access: "extends p (print_access p e l)"
proof (cases "tuple_name (acc_access e)")
  case None
  have "extends p (isl_printer_print_str (isl_printer_print_ast_expr (isl_printer_print_str p ''('')
            (isl_ast_expr_list_get_ast_expr l 0)) '')'')"
    by (blast intro: extends_trans extends_str extends_ast_expr)
  with None show ?thesis by (simp add: print_access_def Let_def)
next
  case (Some name)
  have "extends p (isl_printer_print_str p name)" by (rule extends_str)
  then have "extends p (fold (\<lambda>i p. isl_printer_print_str
                 (isl_printer_print_ast_expr (isl_printer_print_str p ''['')
                    (isl_ast_expr_list_get_ast_expr l i)) '']'')
               [0..<isl_ast_expr_list_n_ast_expr l] (isl_printer_print_str p name))"
    using extends_index_fold by (rule extends_trans)
  with Some show ?thesis by (simp add: print_access_def Let_def)
qed

lemma extends_walker:
  "print_pet_expr p e print_access_expr c = Some (q, c') \<Longrightarrow> extends p q"
  "print_pet_args p es print_access_expr c = Some (q, c') \<Longrightarrow> extends p q"
proof (induction p e print_access_expr c and p es print_access_expr c arbitrary: q c' and q c'
       rule: print_pet_expr_print_pet_args.induct)
  case (1 p user)
  then show ?case by simp
next
  case (2 p expr user)
  show ?case
  proof (cases "type expr = pet_expr_access")
    case True
    with 2(2) show ?thesis
      by (auto simp: print_access_expr_def extends_print_access split: list.splits)
  next
    case False
    with 2 have "extends (isl_printer_print_str p (op_text expr)) q" by simp
    then show ?thesis by (blast intro: extends_trans extends_str)
  qed
next
  case (3 p user)
  then show ?case by (simp add: extends_refl)
next
  case (4 p a as user)
  from 4(3) obtain p1 c1 where a: "print_pet_expr p a print_access_expr user = Some (p1, c1)"
    and b: "print_pet_args p1 as print_access_expr c1 = Some (q, c')"
    by (auto split: option.splits)
  from 4(1) [OF a] 4(2) [OF a refl b] show ?case by (rule extends_trans)
qed

lemma extends_print_user: "print_user p n = Some q \<Longrightarrow> extends p q"
proof -
  assume a: "print_user p n = Some q"
  then obtain sid st q0 c where n: "n = Node_user sid (Some st)"
    and w: "print_pet_expr (isl_printer_start_line p) (body (stmt st)) print_access_expr (access st)
              = Some (q0, c)"
    and q: "q = isl_printer_end_line (isl_printer_print_str q0 '';'')"
    by (auto simp: print_user_def Let_def split: ast_node.splits option.splits)
  from extends_walker(1) [OF w] have "extends (isl_printer_start_line p) q0" .
  with q show ?thesis
    by (blast intro: extends_trans extends_start_line extends_str extends_end_line)
qed

lemma extends_node_print:
  "isl_ast_node_print t p = Some q \<Longrightarrow> extends p q"
  "isl_ast_node_list_print ts p = Some q \<Longrightarrow> extends p q"
proof (induction t p and ts p arbitrary: q and q rule: isl_ast_node_print_isl_ast_node_list_print.induct)
  case (1 sid a p)
  then show ?case by (simp add: extends_print_user)
next
  case (2 a h b p)
  let ?omp = "(case a of Some info \<Rightarrow> is_openmp info | None \<Rightarrow> False)"
  let ?p1 = "if ?omp then isl_printer_end_line (isl_printer_print_str (isl_printer_start_line p)
                ''#pragma omp parallel for'') else p"
  have "extends p (isl_printer_end_line (isl_printer_print_str (isl_printer_start_line p)
                ''#pragma omp parallel for''))"
    by (blast intro: extends_trans extends_start_line extends_str extends_end_line)
  then have e1: "extends p ?p1"
    by (simp add: extends_refl)
  from 2(2) obtain q0 where b: "isl_ast_node_print b (emit ?p1 [For_begin h]) = Some q0"
    and q: "q = emit q0 [For_end]"
    by (auto simp: print_for_def print_for_with_openmp_def Let_def split: option.splits if_splits)
  from 2(1) [OF b] have "extends (emit ?p1 [For_begin h]) q0" .
  moreover have "extends ?p1 (emit ?p1 [For_begin h])" by (simp add: extends_emit)
  moreover have "extends q0 q" unfolding q by (simp add: extends_emit)
  ultimately show ?case using e1 by (blast intro: extends_trans)
next
  case (3 ns p)
  then show ?case by simp
next
  case (4 p)
  then show ?case by (simp add: extends_refl)
next
  case (5 n ns p)
  then show ?case by (auto split: option.splits intro: extends_trans)
qed

lemma extends_print_scop: "print_scop sc p options nst uninit = Some q \<Longrightarrow> extends p q"
proof -
  assume a: "print_scop sc p options nst uninit = Some q"
  show ?thesis
  proof (cases "isl_ast_build_ast_from_schedule (openmp options) sc nst
          (if openmp options then \<lparr>scop = sc, in_parallel_for = False\<rparr> else uninit)")
    case None
    with a show ?thesis by (simp add: print_scop_def Let_def)
  next
    case (Some r)
    obtain tree bi where r: "r = (tree, bi)" by (cases r)
    show ?thesis
    proof (cases tree)
      case None
      with a Some r show ?thesis
        by (auto simp: print_scop_def Let_def isl_ast_node_print_macros_def extends_null
              extends_def)
    next
      case (Some t)
      with a \<open>_ = Some r\<close> r have "isl_ast_node_print t (emit p [Macros]) = Some q"
        by (simp add: print_scop_def Let_def isl_ast_node_print_macros_def)
      from extends_node_print(1) [OF this] show ?thesis
        by (blast intro: extends_trans extends_emit [of "[Macros]", simplified])
    qed
  qed
qed


lemma pf_emit: "emit (prefixed xs p) ys = prefixed xs (emit p ys)"
  by (simp add: emit_def prefixed_def)

lemma pf_null: "(prefixed xs p)\<lparr>is_null := b\<rparr> = prefixed xs (p\<lparr>is_null := b\<rparr>)"
  by (simp add: prefixed_def)

lemma pf_str: "isl_printer_print_str (prefixed xs p) s = prefixed xs (isl_printer_print_str p s)"
  by (simp add: isl_printer_print_str_def pf_emit)

lemma pf_ast_expr:
  "isl_printer_print_ast_expr (prefixed xs p) e = prefixed xs (isl_printer_print_ast_expr p e)"
  by (cases e) (simp_all add: isl_printer_print_ast_expr_def pf_emit pf_null)

lemma pf_start_line: "isl_printer_start_line (prefixed xs p) = prefixed xs (isl_printer_start_line p)"
  by (simp add: isl_printer_start_line_def pf_emit)

lemma pf_end_line: "isl_printer_end_line (prefixed xs p) = prefixed xs (isl_printer_end_line p)"
  by (simp add: isl_printer_end_line_def pf_emit)

lemma pf_index_fold:
  "fold (\<lambda>i p. isl_printer_print_str
                 (isl_printer_print_ast_expr (isl_printer_print_str p ''['')
                    (isl_ast_expr_list_get_ast_expr l i)) '']'') is (prefixed xs p)
   = prefixed xs (fold (\<lambda>i p. isl_printer_print_str
                 (isl_printer_print_ast_expr (isl_printer_print_str p ''['')
                    (isl_ast_expr_list_get_ast_expr l i)) '']'') is p)"
  by (induction "is" arbitrary: p) (simp_all add: pf_str pf_ast_expr)

lemma pf_print_access: "print_access (prefixed xs p) e l = prefixed xs (print_access p e l)"
  by (simp add: print_access_def Let_def pf_str pf_ast_expr pf_index_fold split: option.splits)

lemma pf_walker:
  "print_pet_expr (prefixed xs p) e print_access_expr c
     = map_option (\<lambda>(q, c). (prefixed xs q, c)) (print_pet_expr p e print_access_expr c)"
  "print_pet_args (prefixed xs p) es print_access_expr c
     = map_option (\<lambda>(q, c). (prefixed xs q, c)) (print_pet_args p es print_access_expr c)"
proof (induction p e print_access_expr c and p es print_access_expr c
       rule: print_pet_expr_print_pet_args.induct)
  case (1 p user)
  then show ?case by simp
next
  case (2 p expr user)
  then show ?case
    by (simp add: print_access_expr_def pf_print_access pf_str split: list.splits)
next
  case (3 p user)
  then show ?case by simp
next
  case (4 p a as user)
  then show ?case by (simp split: option.splits)
qed

lemma pf_print_user: "print_user (prefixed xs p) n = map_option (prefixed xs) (print_user p n)"
  by (simp add: print_user_def Let_def pf_start_line pf_walker pf_str pf_end_line
        split: ast_node.splits option.splits)

lemma pf_node_print:
  "isl_ast_node_print t (prefixed xs p) = map_option (prefixed xs) (isl_ast_node_print t p)"
  "isl_ast_node_list_print ts (prefixed xs p)
     = map_option (prefixed xs) (isl_ast_node_list_print ts p)"
proof (induction t p and ts p rule: isl_ast_node_print_isl_ast_node_list_print.induct)
  case (1 sid a p)
  then show ?case by (simp add: pf_print_user)
next
  case (2 a h b p)
  then show ?case
    by (simp add: print_for_def print_for_with_openmp_def Let_def pf_start_line pf_str
          pf_end_line pf_emit split: option.splits)
next
  case (3 ns p)
  then show ?case by simp
next
  case (4 p)
  then show ?case by simp
next
  case (5 n ns p)
  then show ?case by (simp split: option.splits)
qed

lemma pf_print_scop:
  "print_scop sc (prefixed xs p) options nst uninit
     = map_option (prefixed xs) (print_scop sc p options nst uninit)"
  by (simp add: print_scop_def Let_def isl_ast_node_print_macros_def pf_emit pf_null
        pf_node_print split: option.splits)

section \<open>The engine on the leaves\<close>

lemma find_stmt_in: "find_stmt sc sid = Some s \<Longrightarrow> s \<in> set (stmts sc)"
  by (auto simp: find_stmt_def find_Some_iff)

lemma at_each_domain_defined:
  "\<forall>s \<in> set (stmts sc). count_safe (body s) \<Longrightarrow>
     \<exists>r. at_each_domain (Node_user sid a) b sc = Some r"
  by (auto simp: at_each_domain_eq count_safe_def split: option.splits dest: find_stmt_in)

lemma engine_defined:
  "\<forall>s \<in> set (stmts sc). count_safe (body s) \<Longrightarrow>
     \<exists>r bi'. isl_ast_build_ast_from_schedule hooks sc n bi = Some (r, bi')"
  "\<forall>s \<in> set (stmts sc). count_safe (body s) \<Longrightarrow>
     \<exists>r bi'. ast_list_from_schedule hooks sc ns bi = Some (r, bi')"
proof (induction hooks sc n bi and hooks sc ns bi
       rule: isl_ast_build_ast_from_schedule_ast_list_from_schedule.induct)
  case (1 hooks sc build sid bi)
  from at_each_domain_defined [OF 1, of sid None build] show ?case by auto
next
  case (2 hooks sc build h b bi)
  obtain ann bi1 where a: "(if hooks then ast_build_before_for build bi else (None, bi)) = (ann, bi1)"
    by (cases "if hooks then ast_build_before_for build bi else (None, bi)") blast
  from 2(1) [OF a [symmetric] refl 2(2)] obtain r bi2 where
    "isl_ast_build_ast_from_schedule hooks sc b bi1 = Some (r, bi2)" by blast
  with a show ?case
    by (cases r) (auto simp: case_prod_beta)
next
  case (3 hooks sc ns bi)
  then obtain r bi' where "ast_list_from_schedule hooks sc ns bi = Some (r, bi')" by blast
  then show ?case by (cases r) auto
next
  case (4 hooks sc bi)
  then show ?case by simp
next
  case (5 hooks sc n ns bi)
  from 5(1) [OF 5(3)] obtain r bi1 where
    a: "isl_ast_build_ast_from_schedule hooks sc n bi = Some (r, bi1)"
    by blast
  show ?case
  proof (cases r)
    case None
    with a show ?thesis by simp
  next
    case (Some t)
    from 5(2) [OF a [unfolded Some] refl refl 5(3)] obtain r2 bi2 where
      "ast_list_from_schedule hooks sc ns bi1 = Some (r2, bi2)" by blast
    with a Some show ?thesis by (cases r2) auto
  qed
qed

lemma engine_no_tree:
  "sid \<in> set (leaf_ids n) \<Longrightarrow> find_stmt sc sid = None \<Longrightarrow>
     isl_ast_build_ast_from_schedule hooks sc n bi = Some (t, bi') \<Longrightarrow> t = None"
  "sid \<in> set (concat (map leaf_ids ns)) \<Longrightarrow> find_stmt sc sid = None \<Longrightarrow>
     ast_list_from_schedule hooks sc ns bi = Some (ts, bi') \<Longrightarrow> ts = None"
proof (induction hooks sc n bi and hooks sc ns bi arbitrary: t bi' and ts bi'
       rule: isl_ast_build_ast_from_schedule_ast_list_from_schedule.induct)
  case (1 hooks sc build sid' bi)
  then show ?case by (simp add: at_each_domain_eq)
next
  case (2 hooks sc build h b bi)
  obtain ann bi1 where a: "(if hooks then ast_build_before_for build bi else (None, bi)) = (ann, bi1)"
    by (cases "if hooks then ast_build_before_for build bi else (None, bi)") blast
  show ?case
  proof (cases "isl_ast_build_ast_from_schedule hooks sc b bi1")
    case None
    with a 2(4) show ?thesis by simp
  next
    case (Some x)
    obtain r bi2 where x: "x = (r, bi2)" by (cases x)
    from 2(1) [OF a [symmetric] refl _ 2(3) Some [unfolded x]] 2(2) have "r = None" by simp
    with a Some x 2(4) show ?thesis by simp
  qed
next
  case (3 hooks sc ns bi)
  show ?case
  proof (cases "ast_list_from_schedule hooks sc ns bi")
    case None
    with 3(4) show ?thesis by simp
  next
    case (Some x)
    obtain r bi2 where x: "x = (r, bi2)" by (cases x)
    from 3(1) [OF _ 3(3) Some [unfolded x]] 3(2) have "r = None" by simp
    with Some x 3(4) show ?thesis by simp
  qed
next
  case (4 hooks sc bi)
  then show ?case by simp
next
  case (5 hooks sc n ns bi)
  show ?case
  proof (cases "isl_ast_build_ast_from_schedule hooks sc n bi")
    case None
    with 5(5) show ?thesis by simp
  next
    case (Some x)
    obtain r bi1 where x: "x = (r, bi1)" by (cases x)
    note a = Some [unfolded x]
    show ?thesis
    proof (cases r)
      case None
      with a 5(5) show ?thesis by simp
    next
      case (Some t0)
      have "sid \<notin> set (leaf_ids n)"
      proof
        assume "sid \<in> set (leaf_ids n)"
        from 5(1) [OF this 5(4) a] Some show False by simp
      qed
      with 5(3) have in_rest: "sid \<in> set (concat (map leaf_ids ns))" by simp
      show ?thesis
      proof (cases "ast_list_from_schedule hooks sc ns bi1")
        case None
        with a Some 5(5) show ?thesis by simp
      next
        case (Some y)
        obtain r2 bi2 where y: "y = (r2, bi2)" by (cases y)
        from 5(2) [OF a [unfolded \<open>r = Some t0\<close>] refl refl in_rest 5(4) Some [unfolded y]]
        have "r2 = None" .
        with a \<open>r = Some t0\<close> Some y 5(5) show ?thesis by simp
      qed
    qed
  qed
qed

lemma engine_missing_leaf:
  assumes "sid \<in> set (leaf_ids n)" and "find_stmt sc sid = None"
    and "\<forall>s \<in> set (stmts sc). count_safe (body s)"
  shows "\<exists>bi'. isl_ast_build_ast_from_schedule hooks sc n bi = Some (None, bi')"
proof -
  from engine_defined(1) [OF assms(3)] obtain r bi' where
    a: "isl_ast_build_ast_from_schedule hooks sc n bi = Some (r, bi')" by blast
  from engine_no_tree(1) [OF assms(1,2) a] a show ?thesis by blast
qed

lemma engine_no_hooks:
  "isl_ast_build_ast_from_schedule False sc n bi2
     = map_option (\<lambda>(r, b). (r, bi2)) (isl_ast_build_ast_from_schedule False sc n bi)"
  "ast_list_from_schedule False sc ns bi2
     = map_option (\<lambda>(r, b). (r, bi2)) (ast_list_from_schedule False sc ns bi)"
proof (induction False sc n bi and False sc ns bi arbitrary: bi2 and bi2
       rule: isl_ast_build_ast_from_schedule_ast_list_from_schedule.induct)
  case (1 sc build sid bi)
  then show ?case by (simp split: option.splits)
next
  case (2 sc build h b bi)
  from 2 [of "(None, bi)" None bi bi2]
  have "isl_ast_build_ast_from_schedule False sc b bi2
     = map_option (\<lambda>(r, b). (r, bi2)) (isl_ast_build_ast_from_schedule False sc b bi)"
    by simp
  then show ?case
    by (cases "isl_ast_build_ast_from_schedule False sc b bi") (auto split: option.splits)
next
  case (3 sc ns bi)
  from 3 [of bi2] show ?case
    by (cases "ast_list_from_schedule False sc ns bi") (auto split: option.splits)
next
  case (4 sc bi)
  then show ?case by simp
next
  case (5 sc n ns bi)
  show ?case
  proof (cases "isl_ast_build_ast_from_schedule False sc n bi")
    case None
    with 5(1) [of bi2] show ?thesis by simp
  next
    case (Some x)
    obtain r bi1 where x: "x = (r, bi1)" by (cases x)
    show ?thesis
    proof (cases r)
      case None
      with 5(1) [of bi2] Some x show ?thesis by simp
    next
      case (Some t)
      note a = \<open>isl_ast_build_ast_from_schedule False sc n bi = Some x\<close> [unfolded x Some]
      from 5(2) [OF a refl refl, of bi2] 5(1) [of bi2] a show ?thesis
        by (cases "ast_list_from_schedule False sc ns bi1") (auto split: option.splits)
    qed
  qed
qed

lemma print_scop_uninit:
  "print_scop sc p options nst u1 = print_scop sc p options nst u2"
proof (cases "openmp options")
  case True
  then show ?thesis by (simp add: print_scop_def)
next
  case False
  from engine_no_hooks(1) [of sc nst u2 u1] False show ?thesis
    by (cases "isl_ast_build_ast_from_schedule False sc nst u1")
       (auto simp: print_scop_def Let_def)
qed

section \<open>The driver, unfolded\<close>

lemma tree_item_excl:
  "\<forall>x \<in> set xs. tree_item x \<Longrightarrow>
     Start_block \<notin> set xs \<and> End_block \<notin> set xs \<and> (\<forall>a. Declaration a \<notin> set xs)"
  by (induction xs) auto

lemma print_scop_items:
  "print_scop sc \<lparr>is_null = False, written = []\<rparr> options nst uninit = Some q \<Longrightarrow>
     \<forall>x \<in> set (written q). tree_item x"
  by (drule extends_print_scop) (simp add: extends_def)

lemma print_scop_from:
  "print_scop sc \<lparr>is_null = False, written = pre\<rparr> options nst uninit
     = map_option (prefixed pre)
         (print_scop sc \<lparr>is_null = False, written = []\<rparr> options nst uninit)"
  using pf_print_scop [of sc pre "\<lparr>is_null = False, written = []\<rparr>" options nst uninit]
  by (simp add: prefixed_def)

lemma generate_cpu_eq:
  assumes "files e input = Some text"
    and "get_output_file e input output = Some (Some path)"
  shows "generate_cpu (Some sc) options input output e nst uninit
     = (case print_scop sc \<lparr>is_null = False, written = []\<rparr> options nst uninit of
          None \<Rightarrow> None
        | Some q \<Rightarrow>
            Some (0, Some (path,
              [Before_scop text, Str marker_comment]
              @ map Declaration (filter (\<lambda>a. declared a \<and> exposed a) (arrays sc))
              @ (if (\<exists>a \<in> set (arrays sc). declared a \<and> \<not> exposed a)
                 then [Start_block]
                   @ map Declaration (filter (\<lambda>a. declared a \<and> \<not> exposed a) (arrays sc))
                   @ written q @ (if is_null q then [] else [End_block])
                 else written q)
              @ [After_scop text])))"
proof -
  let ?ex = "map Declaration (filter (\<lambda>a. declared a \<and> exposed a) (arrays sc))"
  let ?hi = "map Declaration (filter (\<lambda>a. declared a \<and> \<not> exposed a) (arrays sc))"
  let ?h = "\<exists>a \<in> set (arrays sc). declared a \<and> \<not> exposed a"
  let ?pre = "[Before_scop text, Str marker_comment] @ ?ex @ (if ?h then [Start_block] @ ?hi else [])"
  let ?p0 = "\<lparr>is_null = False, written = [Before_scop text, Str marker_comment]\<rparr>"
  have h: "any_hidden_declarations (Some sc) = ?h"
    by (simp add: any_hidden_declarations_def list_ex_iff)
  have p1: "ppcg_print_exposed_declarations ?p0 sc
      = \<lparr>is_null = False, written = [Before_scop text, Str marker_comment] @ ?ex\<rparr>"
    by (simp add: ppcg_print_exposed_declarations_def emit_def)
  have p2: "(if ?h then ppcg_print_hidden_declarations
                 (ppcg_start_block (ppcg_print_exposed_declarations ?p0 sc)) sc
             else ppcg_print_exposed_declarations ?p0 sc)
      = \<lparr>is_null = False, written = ?pre\<rparr>"
    unfolding p1
    by (simp add: ppcg_print_hidden_declarations_def ppcg_start_block_def emit_def)
  have g: "generate_cpu (Some sc) options input output e nst uninit
      = (case print_scop sc \<lparr>is_null = False, written = ?pre\<rparr> options nst uninit of
           None \<Rightarrow> None
         | Some p \<Rightarrow>
             Some (0, Some (path,
               written (if ?h then ppcg_end_block p else p) @ [After_scop text])))"
    using assms
    by (simp only: generate_cpu_def Let_def option.case prod.case copy_before_scop_def
          copy_after_scop_def append_Nil h p2 List.append.simps)
  have ps: "print_scop sc \<lparr>is_null = False, written = ?pre\<rparr> options nst uninit
      = map_option (prefixed ?pre)
          (print_scop sc \<lparr>is_null = False, written = []\<rparr> options nst uninit)"
    by (rule print_scop_from)
  show ?thesis
  proof (cases "print_scop sc \<lparr>is_null = False, written = []\<rparr> options nst uninit")
    case None
    then show ?thesis unfolding g ps by simp
  next
    case (Some q)
    then show ?thesis unfolding g ps
      by (simp add: prefixed_def ppcg_end_block_def emit_def)
  qed
qed

lemma generate_cpu_defined:
  assumes "generate_cpu (Some sc) options input output e nst uninit = Some r"
  shows "\<exists>text path. files e input = Some text
           \<and> get_output_file e input output = Some (Some path)"
proof (cases "get_output_file e input output")
  case None
  with assms show ?thesis by (simp add: generate_cpu_def)
next
  case (Some fo)
  with assms show ?thesis
    by (cases "files e input"; cases fo) (simp_all add: generate_cpu_def)
qed

lemma output_path_eq:
  "get_output_file e1 input output = Some (Some p1) \<Longrightarrow>
   get_output_file e2 input output = Some (Some p2) \<Longrightarrow> p1 = p2"
  by (auto simp: get_output_file_def fopen_w_def Let_def split: option.splits if_splits)


lemma print_scop_missing_leaf:
  assumes "sid \<in> set (leaf_ids nst)" and "find_stmt sc sid = None"
    and "\<forall>s \<in> set (stmts sc). count_safe (body s)"
  shows "print_scop sc p options nst uninit = Some (p\<lparr>is_null := True\<rparr>)"
proof -
  from engine_missing_leaf [OF assms] obtain bi' where
    "isl_ast_build_ast_from_schedule (openmp options) sc nst
       (if openmp options then \<lparr>scop = sc, in_parallel_for = False\<rparr> else uninit)
     = Some (None, bi')"
    by blast
  then show ?thesis
    by (simp add: print_scop_def Let_def isl_ast_node_print_macros_def)
qed

lemma strrchr_None: "strrchr xs c = None \<longleftrightarrow> c \<notin> set xs"
  by (induction xs) (auto split: option.splits)

lemma strrchr_last: "c \<notin> set ys \<Longrightarrow> strrchr (xs @ c # ys) c = Some (c # ys)"
proof (induction xs)
  case Nil
  then show ?case using strrchr_None [of ys c] by simp
next
  case (Cons x xs)
  then show ?case by simp
qed

lemma get_output_name_extension:
  assumes "CHR ''/'' \<notin> set stem" and "CHR ''/'' \<notin> set ext" and "CHR ''.'' \<notin> set ext"
    and "length stem + length ext + 7 \<le> PATH_MAX"
  shows "get_output_name (dir @ CHR ''/'' # stem @ CHR ''.'' # ext)
           = Some (stem @ ''.ppcg'' @ CHR ''.'' # ext)"
    and "get_output_name (stem @ CHR ''.'' # ext) = Some (stem @ ''.ppcg'' @ CHR ''.'' # ext)"
proof -
  have b: "CHR ''/'' \<notin> set (stem @ CHR ''.'' # ext)"
    using assms(1,2) by simp
  have s1: "strrchr (dir @ CHR ''/'' # stem @ CHR ''.'' # ext) CHR ''/''
      = Some (CHR ''/'' # stem @ CHR ''.'' # ext)"
    using b by (rule strrchr_last)
  have s2: "strrchr (stem @ CHR ''.'' # ext) CHR ''/'' = None"
    using b by (simp add: strrchr_None)
  have e: "strrchr (stem @ CHR ''.'' # ext) CHR ''.'' = Some (CHR ''.'' # ext)"
    using assms(3) by (rule strrchr_last)
  show "get_output_name (dir @ CHR ''/'' # stem @ CHR ''.'' # ext)
           = Some (stem @ ''.ppcg'' @ CHR ''.'' # ext)"
    using assms(4) by (simp add: get_output_name_def Let_def s1 e)
  show "get_output_name (stem @ CHR ''.'' # ext) = Some (stem @ ''.ppcg'' @ CHR ''.'' # ext)"
    using assms(4) by (simp add: get_output_name_def Let_def s2 e)
qed

lemma get_output_name_no_extension:
  assumes "CHR ''/'' \<notin> set base" and "CHR ''.'' \<notin> set base"
  shows "get_output_name (dir @ CHR ''/'' # base) = None" and "get_output_name base = None"
proof -
  have s1: "strrchr (dir @ CHR ''/'' # base) CHR ''/'' = Some (CHR ''/'' # base)"
    using assms(1) by (rule strrchr_last)
  have s2: "strrchr base CHR ''/'' = None"
    using assms(1) by (simp add: strrchr_None)
  have e: "strrchr base CHR ''.'' = None"
    using assms(2) by (simp add: strrchr_None)
  show "get_output_name (dir @ CHR ''/'' # base) = None"
    by (simp add: get_output_name_def Let_def s1 e)
  show "get_output_name base = None"
    by (simp add: get_output_name_def Let_def s2 e)
qed

section \<open>The example, evaluated\<close>

lemma ex_access_exprs:
  "access_exprs (Some ex_body) =
     [ex_access (Some ''C'') 1 [],
      ex_access (Some ''A'') 2 [Some (ex_access (Some ''B'') 1 []), None],
      ex_access None 1 []]"
  by (simp add: ex_body_def ex_access_def)

lemma ex_traversable: "traversable (Some ex_body)"
  by (simp add: ex_body_def ex_access_def)

lemma ex_transformed: "transformed ex_build m (ex_access a n as) = replicate n ''c0''"
  by (simp add: transformed_def ex_build_def ex_access_def map_replicate_const)

lemma ex_at_each_domain:
  "at_each_domain (Node_user ''S'' None) ex_build ex_scop = Some (Some ex_leaf)"
  by (simp add: at_each_domain_eq find_stmt_def ex_scop_def ex_stmt_def ex_traversable
        ex_access_exprs ex_transformed ex_leaf_def numeral_2_eq_2)

lemma ex_parallel: "ast_schedule_dim_is_parallel ex_build ex_scop"
  by (simp add: ast_schedule_dim_is_parallel_def ex_scop_def isl_map_apply_range_def
        isl_map_apply_domain_def)

lemma ex_engine_list:
  "ast_list_from_schedule True ex_scop ex_loops ex_info = Some (Some ex_trees, ex_info)"
  by (simp add: ex_loops_def ex_trees_def ex_info_def before_for_cases after_for_cases
        ex_parallel ex_at_each_domain)

lemma ex_engine:
  "isl_ast_build_ast_from_schedule True ex_scop ex_nest ex_info = Some (Some ex_tree, ex_info)"
  by (simp add: ex_nest_def ex_tree_def ex_engine_list)

lemma ex_print_leaf: "isl_ast_node_print ex_leaf p = Some (emit p ex_line)"
  by (simp add: ex_leaf_def print_user_def ex_stmt_def ex_body_def ex_access_def no_map_def
        print_access_expr_def print_access_def isl_printer_start_line_def
        isl_printer_end_line_def isl_printer_print_str_def isl_printer_print_ast_expr_def
        isl_ast_expr_list_get_ast_expr_def isl_ast_expr_list_n_ast_expr_def emit_emit
        numeral_2_eq_2 ex_line_def)

lemma ex_print_tree: "isl_ast_node_print ex_tree (emit p [Macros]) = Some (emit p ex_tree_text)"
  by (simp add: ex_tree_def ex_trees_def print_for_def print_for_with_openmp_def
        ex_print_leaf isl_printer_start_line_def isl_printer_end_line_def
        isl_printer_print_str_def emit_emit ex_tree_text_def)

lemma ex_print_scop:
  "print_scop ex_scop p ex_options ex_nest uninit = Some (emit p ex_tree_text)"
  using ex_engine
  by (simp add: print_scop_def ex_options_def ex_info_def isl_ast_node_print_macros_def
        ex_print_tree)

lemma ex_output_file:
  "get_output_file ex_env ''src/kernel.c'' None = Some (Some ''kernel.ppcg.c'')"
  by (simp add: get_output_file_def get_output_name_def PATH_MAX_def fopen_w_def ex_env_def)

lemma ex_count_safe: "\<forall>s \<in> set (stmts ex_scop). count_safe (body s)"
  by (simp add: ex_scop_def ex_stmt_def count_safe_def ex_traversable)

lemma ex_missing: "''T'' \<in> set (leaf_ids ex_nest_missing)" "find_stmt ex_scop ''T'' = None"
  by (simp_all add: ex_nest_missing_def find_stmt_def ex_scop_def ex_stmt_def)

lemma ex_error_path_undefined:
  "at_each_domain (Node_user ''T'' None) ex_build ex_scop_broken = None"
  by (simp add: at_each_domain_eq find_stmt_def ex_scop_broken_def ex_access_def)


section \<open>Properties\<close>

text \<open>C10. The traversal reports failure on a null expression; on an access node it
  applies the callback to that node and returns, whatever the node's own arguments are,
  so that the accesses of a body are its outermost access sub-expressions in traversal
  order. On a body without null pointer the counting pass returns 0 and counts exactly
  these, and the filling pass over an array of that many slots returns 0 and stores the
  transformed list of the k-th of them in slot k; on any other body the counting pass
  returns -1.\<close>
theorem foreach_access_expr_outermost:
  "foreach_access_expr None fn u = Some (- 1, u)
   \<and> foreach_access_expr (Some (Pet_expr pet_expr_access as m t)) fn u
       = fn (Pet_expr pet_expr_access as m t) u
   \<and> access_exprs (Some (Pet_expr pet_expr_access as m t)) = [Pet_expr pet_expr_access as m t]
   \<and> (traversable bdy \<longrightarrow>
        foreach_access_expr bdy inc_n_access st
          = Some (0, st\<lparr>n_access := n_access st + length (access_exprs bdy)\<rparr>)
        \<and> foreach_access_expr bdy add_access
            \<lparr>data_stmt = \<lparr>stmt = s, n_access = 0,
                           access = replicate (length (access_exprs bdy)) None\<rparr>,
             data_build = b, data_map = dm\<rparr>
          = Some (0, \<lparr>data_stmt =
                        \<lparr>stmt = s, n_access = length (access_exprs bdy),
                         access = map (\<lambda>x. Some (transformed b dm x)) (access_exprs bdy)\<rparr>,
                      data_build = b, data_map = dm\<rparr>))
   \<and> (\<not> traversable bdy \<longrightarrow>
        (\<exists>st'. foreach_access_expr bdy inc_n_access st = Some (- 1, st')))"
proof -
  have "traversable bdy \<Longrightarrow> foreach_access_expr bdy add_access
            \<lparr>data_stmt = \<lparr>stmt = s, n_access = 0,
                           access = replicate (length (access_exprs bdy)) None\<rparr>,
             data_build = b, data_map = dm\<rparr>
          = Some (0, \<lparr>data_stmt =
                        \<lparr>stmt = s, n_access = length (access_exprs bdy),
                         access = map (\<lambda>x. Some (transformed b dm x)) (access_exprs bdy)\<rparr>,
                      data_build = b, data_map = dm\<rparr>)"
    by (simp add: fill_pass(1) fold_store_all)
  then show ?thesis
    by (simp add: count_pass(1) count_pass_fail)
qed

theorem foreach_access_expr_outermost_witness:
  "traversable (Some ex_body)
   \<and> foreach_access_expr (Some ex_body) inc_n_access
         \<lparr>stmt = ex_stmt, n_access = 0, access = []\<rparr>
       = Some (0, \<lparr>stmt = ex_stmt, n_access = 3, access = []\<rparr>)
   \<and> \<not> traversable (Some (Pet_expr pet_expr_unary [None] no_map ''-''))
   \<and> (\<exists>st'. foreach_access_expr (Some (Pet_expr pet_expr_unary [None] no_map ''-''))
               inc_n_access \<lparr>stmt = ex_stmt, n_access = 0, access = []\<rparr>
             = Some (- 1, st'))"
  using foreach_access_expr_outermost
          [of inc_n_access "\<lparr>stmt = ex_stmt, n_access = 0, access = []\<rparr>" "[]" no_map "[]"
              "Some ex_body" "\<lparr>stmt = ex_stmt, n_access = 0, access = []\<rparr>"
              ex_stmt ex_build "{}"]
        foreach_access_expr_outermost
          [of inc_n_access "\<lparr>stmt = ex_stmt, n_access = 0, access = []\<rparr>" "[]" no_map "[]"
              "Some (Pet_expr pet_expr_unary [None] no_map ''-'')"
              "\<lparr>stmt = ex_stmt, n_access = 0, access = []\<rparr>" ex_stmt ex_build "{}"]
  by (simp add: ex_traversable ex_access_exprs)




text \<open>C2. With the dependences taken as the pairs of timestamp vectors that the schedule
  assigns to the two ends of a flow or false dependence: if there is no such pair the
  loop is parallel; otherwise it is parallel exactly when every pair that agrees on all
  dimensions before the last one also agrees on the last one; with a single schedule
  dimension no pair is removed by the agreement on the earlier dimensions.\<close>
theorem schedule_dim_parallel_iff:
  assumes "0 < schedule_space_dim build" and "schedule_space_dim build < 2 ^ 32"
  shows "let deps = {(s, t). \<exists>a b. (a, b) \<in> dep_flow sc \<union> dep_false sc
                        \<and> (a, s) \<in> schedule build \<and> (b, t) \<in> schedule build};
             last = schedule_space_dim build - 1
         in (deps = {} \<longrightarrow> ast_schedule_dim_is_parallel build sc)
          \<and> (deps \<noteq> {} \<longrightarrow>
               ast_schedule_dim_is_parallel build sc
                 = ({(s, t). (s, t) \<in> deps \<and> (\<forall>i<last. t ! i = s ! i)}
                      \<subseteq> {(s, t). t ! last = s ! last}))
          \<and> (schedule_space_dim build = 1 \<longrightarrow>
               {(s, t). (s, t) \<in> deps \<and> (\<forall>i<last. t ! i = s ! i)} = deps)"
proof -
  define D where "D = {(s, t). \<exists>a b. (a, b) \<in> dep_flow sc \<union> dep_false sc
                        \<and> (a, s) \<in> schedule build \<and> (b, t) \<in> schedule build}"
  define l where "l = schedule_space_dim build - 1"
  have dim: "unat (word_of_nat (schedule_space_dim build) - (1 :: 32 word)) = l"
    unfolding l_def using assms by (rule unsigned_pred)
  have comp: "isl_map_apply_domain
                (isl_map_apply_range (dep_flow sc \<union> dep_false sc) (schedule build))
                (schedule build) = D"
    unfolding D_def by (rule composed_deps)
  have test: "isl_map_equate UNIV l l = {(s, t). t ! l = s ! l}"
    by (simp add: isl_map_equate_def)
  have par: "ast_schedule_dim_is_parallel build sc
      = (D = {} \<or> {(s, t). (s, t) \<in> D \<and> (\<forall>i<l. t ! i = s ! i)} \<subseteq> {(s, t). t ! l = s ! l})"
    by (simp only: ast_schedule_dim_is_parallel_def Let_def comp dim equate_fold test if_bool_eq_disj)
       blast
  have one: "schedule_space_dim build = 1 \<Longrightarrow>
      {(s, t). (s, t) \<in> D \<and> (\<forall>i<l. t ! i = s ! i)} = D"
    by (simp add: l_def)
  from par one show ?thesis
    unfolding Let_def D_def [symmetric] l_def [symmetric] by blast
qed



theorem schedule_dim_parallel_iff_witness:
  "0 < schedule_space_dim ex_build \<and> schedule_space_dim ex_build < 2 ^ 32
   \<and> ast_schedule_dim_is_parallel ex_build ex_scop
   \<and> \<not> ast_schedule_dim_is_parallel ex_build ex_scop_carried"
proof -
  have d: "0 < schedule_space_dim ex_build" "schedule_space_dim ex_build < 2 ^ 32"
    by (simp_all add: ex_build_def)
  have l: "schedule_space_dim ex_build - 1 = 0"
    by (simp add: ex_build_def)
  have e: "{(s, t). \<exists>a b. (a, b) \<in> dep_flow ex_scop \<union> dep_false ex_scop
              \<and> (a, s) \<in> schedule ex_build \<and> (b, t) \<in> schedule ex_build} = {}"
    by (simp add: ex_scop_def)
  have c: "{(s, t). \<exists>a b. (a, b) \<in> dep_flow ex_scop_carried \<union> dep_false ex_scop_carried
              \<and> (a, s) \<in> schedule ex_build \<and> (b, t) \<in> schedule ex_build}
            = {([i], [i + 1]) | i. True}"
    by (auto simp: ex_scop_carried_def ex_scop_def ex_build_def)
  have p: "ast_schedule_dim_is_parallel ex_build ex_scop"
    using schedule_dim_parallel_iff [OF d, of ex_scop] unfolding Let_def e by simp
  let ?C = "{([i], [i + 1]) | i :: int. True}"
  have mem: "([0 :: int], [1]) \<in> ?C" by simp
  then have ne: "?C \<noteq> {}" by blast
  have "(?C = {} \<longrightarrow> ast_schedule_dim_is_parallel ex_build ex_scop_carried)
     \<and> (?C \<noteq> {} \<longrightarrow>
          ast_schedule_dim_is_parallel ex_build ex_scop_carried
            = ({(s, t). (s, t) \<in> ?C \<and> (\<forall>i<0. t ! i = s ! i)}
                 \<subseteq> {(s, t). t ! 0 = s ! 0}))
     \<and> (schedule_space_dim ex_build = 1 \<longrightarrow>
          {(s, t). (s, t) \<in> ?C \<and> (\<forall>i<0. t ! i = s ! i)} = ?C)"
    using schedule_dim_parallel_iff [OF d, of ex_scop_carried] unfolding Let_def c l .
  then have "?C \<noteq> {} \<longrightarrow>
          ast_schedule_dim_is_parallel ex_build ex_scop_carried
            = ({(s, t). (s, t) \<in> ?C \<and> (\<forall>i<0. t ! i = s ! i)}
                 \<subseteq> {(s, t). t ! 0 = s ! 0})"
    by (rule conjunct1 [OF conjunct2])
  with ne have iff: "ast_schedule_dim_is_parallel ex_build ex_scop_carried
            = ({(s, t). (s, t) \<in> ?C \<and> (\<forall>i<0. t ! i = s ! i)}
                 \<subseteq> {(s, t). t ! 0 = s ! 0})"
    by (rule rev_mp)
  have n: "\<not> ast_schedule_dim_is_parallel ex_build ex_scop_carried"
  proof
    assume "ast_schedule_dim_is_parallel ex_build ex_scop_carried"
    with iff have sub: "{(s, t). (s, t) \<in> ?C \<and> (\<forall>i<0. t ! i = s ! i)}
                 \<subseteq> {(s, t). t ! 0 = s ! 0}"
      by (simp only:)
    from mem have "([0 :: int], [1]) \<in> {(s, t). (s, t) \<in> ?C \<and> (\<forall>i<0. t ! i = s ! i)}"
      by simp
    with sub have "([0 :: int], [1]) \<in> {(s, t). t ! 0 = s ! 0}"
      by (rule subsetD)
    then show False by simp
  qed
  from d p n show ?thesis by simp
qed

text \<open>C9. An access whose relation has no output tuple name is printed as its single
  index expression between parentheses, and nothing else; a named access is printed as
  the name followed by every index expression of its list between brackets, in order,
  and the list that \<open>add_access\<close> builds has one expression per output dimension.\<close>
theorem print_access_format:
  "(tuple_name (acc_access expr) = None \<longrightarrow>
      print_access p expr (Some [e]) = emit p [Str ''('', Ast_expr e, Str '')''])
   \<and> (tuple_name (acc_access expr) = Some name \<longrightarrow>
      print_access p expr (Some es)
        = emit p (Str name # concat (map (\<lambda>e. [Str ''['', Ast_expr e, Str '']'']) es)))
   \<and> length (transformed build m expr) = dim_out (acc_access expr)
   \<and> (\<not> is_null p \<longrightarrow> written (emit p xs) = written p @ xs)"
  using print_index_fold [of es "[]" "isl_printer_print_str p name"]
  by (simp add: print_access_def isl_ast_expr_list_get_ast_expr_def
        isl_ast_expr_list_n_ast_expr_def isl_printer_print_str_def
        isl_printer_print_ast_expr_def emit_emit transformed_length)
     (simp add: emit_def)

theorem print_access_format_witness:
  "tuple_name (acc_access (ex_access None 1 [])) = None
   \<and> print_access ex_printer (ex_access None 1 []) (Some [''c0''])
       = \<lparr>is_null = False, written = [Str ''('', Ast_expr ''c0'', Str '')'']\<rparr>
   \<and> tuple_name (acc_access (ex_access (Some ''A'') 2 [])) = Some ''A''
   \<and> print_access ex_printer (ex_access (Some ''A'') 2 []) (Some [''c0'', ''c1''])
       = \<lparr>is_null = False,
          written = [Str ''A'', Str ''['', Ast_expr ''c0'', Str '']'',
                     Str ''['', Ast_expr ''c1'', Str '']'']\<rparr>"
  using print_access_format
          [of "ex_access None 1 []" ex_printer "''c0''" "''A''" "[]" ex_build "{}" "[]"]
        print_access_format
          [of "ex_access (Some ''A'') 2 []" ex_printer "''c0''" "''A''" "[''c0'', ''c1'']"
              ex_build "{}" "[]"]
  by (simp add: ex_access_def ex_printer_def emit_def)


text \<open>C3. The pre-loop hook leaves the annotation and the flag as they are when the
  flag is set, and otherwise marks the loop and sets the flag exactly when the loop is
  parallel; the post-loop hook clears the flag exactly when the completed loop's own
  annotation is parallel. Hence a tree built with the hooks leaves the flag as it found
  it, has no marked loop when built under a set flag and at most one marked loop along
  any path from its root to a leaf when built under a clear flag; and among sibling
  nodes built under a clear flag every loop is marked exactly when it is parallel
  itself, whatever its siblings are.\<close>
theorem at_most_one_open_parallel_loop:
  "(in_parallel_for bi \<longrightarrow> mark_openmp_parallel b bi ni = (bi, ni))
   \<and> (\<not> in_parallel_for bi \<longrightarrow>
        mark_openmp_parallel b bi ni
          = (if ast_schedule_dim_is_parallel b (scop bi)
             then (bi\<lparr>in_parallel_for := True\<rparr>, ni\<lparr>is_openmp := True\<rparr>)
             else (bi, ni)))
   \<and> ast_build_after_for (Node_for ann h t0) b bi
       = (Node_for ann h t0,
          if (case ann of Some info \<Rightarrow> is_openmp info | None \<Rightarrow> False)
          then bi\<lparr>in_parallel_for := False\<rparr> else bi)
   \<and> (isl_ast_build_ast_from_schedule True sc n bi = Some (Some t, bi') \<longrightarrow>
        bi' = bi \<and> marked_depth t \<le> (if in_parallel_for bi then 0 else 1))
   \<and> (ast_list_from_schedule True sc ns bi = Some (Some ts, bi') \<and> \<not> in_parallel_for bi \<longrightarrow>
        length ts = length ns
        \<and> (\<forall>i<length ns. \<forall>b' h' n'. ns ! i = Nest_for b' h' n' \<longrightarrow>
              (\<exists>t'. ts ! i = Node_for (Some \<lparr>is_openmp =
                            ast_schedule_dim_is_parallel b' (scop bi)\<rparr>) h' t')))"
proof (intro conjI)
  show "in_parallel_for bi \<longrightarrow> mark_openmp_parallel b bi ni = (bi, ni)"
    by (simp add: mark_openmp_parallel_def)
  show "\<not> in_parallel_for bi \<longrightarrow>
        mark_openmp_parallel b bi ni
          = (if ast_schedule_dim_is_parallel b (scop bi)
             then (bi\<lparr>in_parallel_for := True\<rparr>, ni\<lparr>is_openmp := True\<rparr>)
             else (bi, ni))"
    by (simp add: mark_openmp_parallel_def)
  show "ast_build_after_for (Node_for ann h t0) b bi
       = (Node_for ann h t0,
          if (case ann of Some info \<Rightarrow> is_openmp info | None \<Rightarrow> False)
          then bi\<lparr>in_parallel_for := False\<rparr> else bi)"
    by (rule after_for_cases)
  show "isl_ast_build_ast_from_schedule True sc n bi = Some (Some t, bi') \<longrightarrow>
        bi' = bi \<and> marked_depth t \<le> (if in_parallel_for bi then 0 else 1)"
    using nesting_invariant(1) by blast
  show "ast_list_from_schedule True sc ns bi = Some (Some ts, bi') \<and> \<not> in_parallel_for bi \<longrightarrow>
        length ts = length ns
        \<and> (\<forall>i<length ns. \<forall>b' h' n'. ns ! i = Nest_for b' h' n' \<longrightarrow>
              (\<exists>t'. ts ! i = Node_for (Some \<lparr>is_openmp =
                            ast_schedule_dim_is_parallel b' (scop bi)\<rparr>) h' t'))"
    using siblings_independent by blast
qed


theorem at_most_one_open_parallel_loop_witness:
  "\<not> in_parallel_for ex_info
   \<and> isl_ast_build_ast_from_schedule True ex_scop ex_nest ex_info = Some (Some ex_tree, ex_info)
   \<and> marked_depth ex_tree \<le> 1
   \<and> ast_list_from_schedule True ex_scop ex_loops ex_info = Some (Some ex_trees, ex_info)
   \<and> (\<exists>t'. ex_trees ! 1 = Node_for (Some \<lparr>is_openmp = True\<rparr>) ''for c0'' t')
   \<and> in_parallel_for (ex_info\<lparr>in_parallel_for := True\<rparr>)
   \<and> mark_openmp_parallel ex_build (ex_info\<lparr>in_parallel_for := True\<rparr>) \<lparr>is_openmp = False\<rparr>
       = (ex_info\<lparr>in_parallel_for := True\<rparr>, \<lparr>is_openmp = False\<rparr>)"
proof -
  have f: "\<not> in_parallel_for ex_info"
    by (simp add: ex_info_def)
  have t: "in_parallel_for (ex_info\<lparr>in_parallel_for := True\<rparr>)"
    by simp
  have l: "ex_loops ! 1 = Nest_for ex_build ''for c0'' (Nest_user ex_build ''S'')"
    "1 < length ex_loops"
    by (simp_all add: ex_loops_def)
  from at_most_one_open_parallel_loop
          [of ex_info ex_build "\<lparr>is_openmp = False\<rparr>" None "[]" ex_leaf ex_scop ex_nest ex_tree
              ex_info ex_loops ex_trees]
       f ex_engine ex_engine_list
  have d: "marked_depth ex_tree \<le> 1"
    and s: "\<forall>i<length ex_loops. \<forall>b' h' n'. ex_loops ! i = Nest_for b' h' n' \<longrightarrow>
              (\<exists>t'. ex_trees ! i = Node_for (Some \<lparr>is_openmp =
                            ast_schedule_dim_is_parallel b' (scop ex_info)\<rparr>) h' t')"
    by simp_all
  from s l have "\<exists>t'. ex_trees ! 1 = Node_for (Some \<lparr>is_openmp =
                            ast_schedule_dim_is_parallel ex_build (scop ex_info)\<rparr>) ''for c0'' t'"
    by blast
  then have e: "\<exists>t'. ex_trees ! 1 = Node_for (Some \<lparr>is_openmp = True\<rparr>) ''for c0'' t'"
    by (simp add: ex_info_def ex_parallel)
  from at_most_one_open_parallel_loop
          [of "ex_info\<lparr>in_parallel_for := True\<rparr>" ex_build "\<lparr>is_openmp = False\<rparr>" None "[]"
              ex_leaf ex_scop ex_nest ex_tree ex_info ex_loops ex_trees]
       t
  have m: "mark_openmp_parallel ex_build (ex_info\<lparr>in_parallel_for := True\<rparr>)
             \<lparr>is_openmp = False\<rparr>
       = (ex_info\<lparr>in_parallel_for := True\<rparr>, \<lparr>is_openmp = False\<rparr>)"
    by blast
  from f t d e m ex_engine ex_engine_list show ?thesis by blast
qed





text \<open>C5, as the spec states it, fails: with the model present and the input file not
  opening, or the output file not opening, the driver reports no failure; the null file
  pointer goes on to the copying and printing calls, whose behaviour is undefined.\<close>
theorem unopened_file_counterexample:
  "generate_cpu (Some ex_scop) ex_options ''src/kernel.c'' None
      (ex_env\<lparr>files := (\<lambda>p. None)\<rparr>) ex_nest ex_info = None
   \<and> generate_cpu (Some ex_scop) ex_options ''src/kernel.c'' None
      (ex_env\<lparr>writable := (\<lambda>p. False)\<rparr>) ex_nest ex_info = None"
  by (simp add: generate_cpu_def get_output_file_def get_output_name_def PATH_MAX_def
        fopen_w_def ex_env_def)

text \<open>C5, amended. Without a model the driver returns -1 at once, with no file opened;
  this is the only failure it reports: whenever it returns with a model present, it
  returns 0, both files were opened and the output file was written.\<close>
theorem generate_cpu_failure_outcome:
  "generate_cpu None options input output e nst uninit = Some (- 1, None)
   \<and> (generate_cpu ps options input output e nst uninit = Some (r, out) \<longrightarrow>
        (r = - 1 \<longleftrightarrow> ps = None)
        \<and> (ps \<noteq> None \<longrightarrow>
             r = 0 \<and> (\<exists>text path f. files e input = Some text
                         \<and> get_output_file e input output = Some (Some path)
                         \<and> out = Some (path, f))))"
proof -
  have n: "generate_cpu None options input output e nst uninit = Some (- 1, None)"
    by (simp add: generate_cpu_def)
  have b: "r = 0 \<and> (\<exists>text path f. files e input = Some text
                         \<and> get_output_file e input output = Some (Some path)
                         \<and> out = Some (path, f))"
    if a: "generate_cpu ps options input output e nst uninit = Some (r, out)"
      and "ps \<noteq> None"
  proof -
    from that obtain sc where sc: "ps = Some sc" by blast
    from generate_cpu_defined [OF a [unfolded sc]] obtain src path where
      f: "files e input = Some src" and g: "get_output_file e input output = Some (Some path)"
      by blast
    from a show ?thesis
      unfolding sc generate_cpu_eq [OF f g] using f g by (auto split: option.splits)
  qed
  have c: "(r = - 1) = (ps = None)"
    if a: "generate_cpu ps options input output e nst uninit = Some (r, out)"
    using a b [OF a] by (cases ps) (auto simp: generate_cpu_def)
  from n b c show ?thesis by blast
qed

theorem generate_cpu_failure_outcome_witness:
  "generate_cpu None ex_options ''src/kernel.c'' None ex_env ex_nest ex_info = Some (- 1, None)
   \<and> (\<exists>f. generate_cpu (Some ex_scop) ex_options ''src/kernel.c'' None ex_env ex_nest ex_info
          = Some (0, Some (''kernel.ppcg.c'', f)))"
proof -
  have f: "files ex_env ''src/kernel.c'' = Some ''void f() { }''"
    by (simp add: ex_env_def)
  obtain r out where r: "generate_cpu (Some ex_scop) ex_options ''src/kernel.c'' None ex_env
      ex_nest ex_info = Some (r, out)"
    by (simp add: generate_cpu_eq [OF f ex_output_file] ex_print_scop)
  from generate_cpu_failure_outcome
         [of ex_options "''src/kernel.c''" None ex_env ex_nest ex_info "Some ex_scop" r out] r
       ex_output_file
  show ?thesis by auto
qed


text \<open>C6, as the spec states it, fails: the example has an array that is declared and
  not exposed, and on a loop nest whose only leaf names the missing statement \<open>T\<close> the
  output file holds the opened block with its declaration, no tree, and no closing of
  the block.\<close>
theorem unclosed_block_counterexample:
  "any_hidden_declarations (Some ex_scop)
   \<and> generate_cpu (Some ex_scop) \<lparr>openmp = False\<rparr> ''src/kernel.c'' (Some ''out.c'') ex_env
        (Nest_user ex_build ''T'') ex_info
       = Some (0, Some (''out.c'',
           [Before_scop ''void f() { }'', Str marker_comment,
            Declaration (ex_array ''A'' True True), Start_block,
            Declaration (ex_array ''t'' True False), After_scop ''void f() { }'']))"
proof -
  have h: "any_hidden_declarations (Some ex_scop)"
    by (simp add: any_hidden_declarations_def ex_scop_def ex_array_def)
  have f: "files ex_env ''src/kernel.c'' = Some ''void f() { }''"
    by (simp add: ex_env_def)
  have o: "get_output_file ex_env ''src/kernel.c'' (Some ''out.c'') = Some (Some ''out.c'')"
    by (simp add: get_output_file_def get_output_name_def PATH_MAX_def fopen_w_def ex_env_def)
  have l: "''T'' \<in> set (leaf_ids (Nest_user ex_build ''T''))"
    by simp
  have "generate_cpu (Some ex_scop) \<lparr>openmp = False\<rparr> ''src/kernel.c'' (Some ''out.c'') ex_env
        (Nest_user ex_build ''T'') ex_info
       = Some (0, Some (''out.c'',
           [Before_scop ''void f() { }'', Str marker_comment,
            Declaration (ex_array ''A'' True True), Start_block,
            Declaration (ex_array ''t'' True False), After_scop ''void f() { }'']))"
    unfolding generate_cpu_eq [OF f o]
      print_scop_missing_leaf [OF l ex_missing(2) ex_count_safe]
    by (simp add: ex_scop_def ex_array_def)
  with h show ?thesis by simp
qed

text \<open>C6, amended. When the tree is generated and printed to the end, the output file
  holds the text before the region, the marker comment and the declarations of the
  arrays that are declared and exposed; then, if some array is declared and not exposed,
  one block that opens, holds the declarations of the arrays that are declared and not
  exposed followed by the tree, and closes; otherwise the tree with no block; then the
  text after the region. The text of the tree holds no block bracket of the driver
  (\<open>ppcg_start_block\<close>, \<open>ppcg_end_block\<close>) and no declaration.\<close>
theorem hidden_declarations_in_one_block:
  assumes "files e input = Some text"
    and "get_output_file e input output = Some (Some path)"
    and "print_scop sc \<lparr>is_null = False, written = []\<rparr> options nst uninit = Some q"
    and "\<not> is_null q"
  shows "generate_cpu (Some sc) options input output e nst uninit
           = Some (0, Some (path,
               [Before_scop text, Str marker_comment]
               @ map Declaration (filter (\<lambda>a. declared a \<and> exposed a) (arrays sc))
               @ (if (\<exists>a \<in> set (arrays sc). declared a \<and> \<not> exposed a)
                  then [Start_block]
                    @ map Declaration (filter (\<lambda>a. declared a \<and> \<not> exposed a) (arrays sc))
                    @ written q @ [End_block]
                  else written q)
               @ [After_scop text]))
         \<and> Start_block \<notin> set (written q) \<and> End_block \<notin> set (written q)
         \<and> (\<forall>a. Declaration a \<notin> set (written q))"
  using generate_cpu_eq [OF assms(1,2), of sc options nst uninit] assms(3,4)
        tree_item_excl [OF print_scop_items [OF assms(3)]]
  by simp

theorem hidden_declarations_in_one_block_witness:
  "files ex_env ''src/kernel.c'' = Some ''void f() { }''
   \<and> get_output_file ex_env ''src/kernel.c'' None = Some (Some ''kernel.ppcg.c'')
   \<and> print_scop ex_scop \<lparr>is_null = False, written = []\<rparr> ex_options ex_nest ex_info
       = Some \<lparr>is_null = False, written = ex_tree_text\<rparr>
   \<and> generate_cpu (Some ex_scop) ex_options ''src/kernel.c'' None ex_env ex_nest ex_info
       = Some (0, Some (''kernel.ppcg.c'',
           [Before_scop ''void f() { }'', Str marker_comment,
            Declaration (ex_array ''A'' True True), Start_block,
            Declaration (ex_array ''t'' True False)] @ ex_tree_text
           @ [End_block, After_scop ''void f() { }'']))"
proof -
  have f: "files ex_env ''src/kernel.c'' = Some ''void f() { }''"
    by (simp add: ex_env_def)
  have p: "print_scop ex_scop \<lparr>is_null = False, written = []\<rparr> ex_options ex_nest ex_info
       = Some \<lparr>is_null = False, written = ex_tree_text\<rparr>"
    by (simp add: ex_print_scop emit_def)
  have n: "\<not> is_null \<lparr>is_null = False, written = ex_tree_text\<rparr>"
    by simp
  from hidden_declarations_in_one_block [OF f ex_output_file p n]
  have "generate_cpu (Some ex_scop) ex_options ''src/kernel.c'' None ex_env ex_nest ex_info
       = Some (0, Some (''kernel.ppcg.c'',
           [Before_scop ''void f() { }'', Str marker_comment,
            Declaration (ex_array ''A'' True True), Start_block,
            Declaration (ex_array ''t'' True False)] @ ex_tree_text
           @ [End_block, After_scop ''void f() { }'']))"
    by (simp add: ex_scop_def ex_array_def)
  with f ex_output_file p show ?thesis by simp
qed



text \<open>C7. Two runs on the same model, options, loop nest, input path and output path, in
  two environments in which the input file has the same text, and from any two contents
  of the uninitialised build information, return the same value and write the same
  output to the same file, whenever both return.\<close>
theorem generate_cpu_deterministic:
  assumes "files e1 input = files e2 input"
    and "generate_cpu ps options input output e1 nst u1 = Some r1"
    and "generate_cpu ps options input output e2 nst u2 = Some r2"
  shows "r1 = r2"
proof (cases ps)
  case None
  with assms(2,3) show ?thesis by (simp add: generate_cpu_def)
next
  case (Some sc)
  from generate_cpu_defined [OF assms(2) [unfolded Some]] obtain src p1 where
    f1: "files e1 input = Some src" and o1: "get_output_file e1 input output = Some (Some p1)"
    by blast
  from generate_cpu_defined [OF assms(3) [unfolded Some]] obtain src2 p2 where
    f2: "files e2 input = Some src2" and o2: "get_output_file e2 input output = Some (Some p2)"
    by blast
  from f1 f2 assms(1) have t: "src2 = src" by simp
  from output_path_eq [OF o2 o1] have p: "p2 = p1" .
  have u: "print_scop sc \<lparr>is_null = False, written = []\<rparr> options nst u2
         = print_scop sc \<lparr>is_null = False, written = []\<rparr> options nst u1"
    by (rule print_scop_uninit)
  from assms(2,3) show ?thesis
    unfolding Some generate_cpu_eq [OF f1 o1] generate_cpu_eq [OF f2 o2] t p u by simp
qed

theorem generate_cpu_deterministic_witness:
  "files ex_env ''src/kernel.c'' = files (ex_env\<lparr>writable := (\<lambda>p. p = ''kernel.ppcg.c'')\<rparr>) ''src/kernel.c''
   \<and> (\<exists>r. generate_cpu (Some ex_scop) ex_options ''src/kernel.c'' None ex_env ex_nest ex_info
           = Some r
        \<and> generate_cpu (Some ex_scop) ex_options ''src/kernel.c'' None
             (ex_env\<lparr>writable := (\<lambda>p. p = ''kernel.ppcg.c'')\<rparr>) ex_nest
             (ex_info\<lparr>in_parallel_for := True\<rparr>)
           = Some r)"
proof -
  let ?e2 = "ex_env\<lparr>writable := (\<lambda>p. p = ''kernel.ppcg.c'')\<rparr>"
  have f: "files ex_env ''src/kernel.c'' = files ?e2 ''src/kernel.c''"
    by simp
  have f1: "files ex_env ''src/kernel.c'' = Some ''void f() { }''"
    by (simp add: ex_env_def)
  have f2: "files ?e2 ''src/kernel.c'' = Some ''void f() { }''"
    by (simp add: ex_env_def)
  have o2: "get_output_file ?e2 ''src/kernel.c'' None = Some (Some ''kernel.ppcg.c'')"
    by (simp add: get_output_file_def get_output_name_def PATH_MAX_def fopen_w_def)
  obtain r1 where r1: "generate_cpu (Some ex_scop) ex_options ''src/kernel.c'' None ex_env
      ex_nest ex_info = Some r1"
    by (simp add: generate_cpu_eq [OF f1 ex_output_file] ex_print_scop)
  obtain r2 where r2: "generate_cpu (Some ex_scop) ex_options ''src/kernel.c'' None ?e2
      ex_nest (ex_info\<lparr>in_parallel_for := True\<rparr>) = Some r2"
    by (simp add: generate_cpu_eq [OF f2 o2] ex_print_scop)
  from generate_cpu_deterministic [OF f r1 r2] r1 r2 f show ?thesis by blast
qed



text \<open>C8, at an input whose final component has no extension: \<open>strrchr\<close> returns NULL
  and \<open>strcpy\<close> copies from it, so no name is derived and the behaviour is undefined,
  also when an output path is given. With an extension the name is as claimed
  (\<open>get_output_name_extension\<close>).\<close>
theorem output_name_without_extension:
  "get_output_name ''Makefile'' = None
   \<and> get_output_file ex_env ''Makefile'' None = None
   \<and> generate_cpu (Some ex_scop) ex_options ''Makefile'' None
        (ex_env\<lparr>files := (\<lambda>p. Some ''void f() { }'')\<rparr>) ex_nest ex_info = None
   \<and> get_output_name ''src/kernel.c'' = Some ''kernel.ppcg.c''"
  by (simp add: generate_cpu_def get_output_file_def get_output_name_def PATH_MAX_def)


end
